theory Spec2Isabelle
  imports Main
begin

section \<open>JavaScript values and the session store\<close>

text \<open>
  The values the agents keep in the session state are JSON-like JavaScript values.
  A JavaScript string is a \<open>string\<close> here, one element per UTF-16 code unit (only
  code units below 256 are represented); the code only ever takes the length of a
  string or compares it with an ASCII literal.
  Numbers are never inspected by the code modelled below and are carried as integers.
  An object is an association list of its own properties (keys distinct, as in
  JavaScript); \<open>map_of\<close> reads it.
\<close>

datatype jsval =
    JUndefined
  | JNull
  | JBool bool
  | JNum int
  | JStr string
  | JArr "jsval list"
  | JObj "(string \<times> jsval) list"

datatype js_error = TypeError string | Error string

text \<open>
  Property access \<open>v.k\<close>: it throws a TypeError on \<open>undefined\<close> and \<open>null\<close>;
  on an object it reads the own property, \<open>undefined\<close> when there is none. Primitive
  values and arrays have no own property under the keys the code reads
  (\<open>status\<close>), so the access gives \<open>undefined\<close> there.
\<close>

fun member :: "jsval \<Rightarrow> string \<Rightarrow> js_error + jsval" where
  "member JUndefined k = Inl (TypeError ''Cannot read properties of undefined'')"
| "member JNull k = Inl (TypeError ''Cannot read properties of null'')"
| "member (JObj kvs) k = Inr (case map_of kvs k of None \<Rightarrow> JUndefined | Some v \<Rightarrow> v)"
| "member v k = Inr JUndefined"

text \<open>Optional chaining \<open>v?.k\<close>: \<open>undefined\<close> when \<open>v\<close> is nullish, \<open>v.k\<close> otherwise.\<close>

definition optional_member :: "jsval \<Rightarrow> string \<Rightarrow> js_error + jsval" where
  "optional_member v k = (if v = JUndefined \<or> v = JNull then Inr JUndefined else member v k)"

text \<open>Reading a key of a plain object used as a dictionary: \<open>undefined\<close> when absent.\<close>

definition index_key :: "(string \<rightharpoonup> jsval) \<Rightarrow> string \<Rightarrow> jsval" where
  "index_key m k = (case m k of None \<Rightarrow> JUndefined | Some v \<Rightarrow> v)"

section \<open>Events\<close>

text \<open>
  The fields of an ADK event that the repository's code writes or reads. The
  identifier and the timestamp that the library adds to each event are not modelled.
\<close>

record part =
  part_text :: "string option"

record content =
  role :: string
  parts :: "part list"

record event_actions =
  escalate :: "bool option"

record event =
  author :: "string option"
  content :: "content option"
  actions :: "event_actions option"
  errorCode :: "string option"

text \<open>\<open>createEventActions({escalate: b})\<close> and \<open>createEvent({author, content, actions})\<close>:
  the constructors keep what they are given; what is not given is absent.\<close>

definition createEventActions :: "bool option \<Rightarrow> event_actions" where
  "createEventActions esc = \<lparr>escalate = esc\<rparr>"

definition createEvent :: "string \<Rightarrow> content \<Rightarrow> event_actions option \<Rightarrow> event" where
  "createEvent a c acts = \<lparr>author = Some a, content = Some c, actions = acts, errorCode = None\<rparr>"

text \<open>\<open>event.actions?.escalate\<close>\<close>

definition actions_escalate :: "event \<Rightarrow> bool option" where
  "actions_escalate e = (case actions e of None \<Rightarrow> None | Some a \<Rightarrow> escalate a)"

record session =
  state :: "string \<rightharpoonup> jsval"
  events :: "event list"

record invocation_context =
  session :: session

section \<open>Zod schemas\<close>

text \<open>
  The schemas the repository declares, as data: \<open>z.string()\<close> with its optional length
  bounds, \<open>z.enum([...])\<close>, \<open>z.coerce.number()\<close>, \<open>.optional()\<close> and \<open>z.object({...})\<close>.
\<close>

datatype zod =
    ZString "nat option" "nat option"
  | ZEnum "string list"
  | ZCoerceNumber
  | ZOptional zod
  | ZObject "(string \<times> zod) list"

definition z_string :: zod where
  "z_string = ZString None None"

fun z_min :: "nat \<Rightarrow> zod \<Rightarrow> zod" where
  "z_min n (ZString lo hi) = ZString (Some n) hi"
| "z_min n z = z"

fun z_max :: "nat \<Rightarrow> zod \<Rightarrow> zod" where
  "z_max n (ZString lo hi) = ZString lo (Some n)"
| "z_max n z = z"

section \<open>Request validation (schemas.ts)\<close>

text \<open>\<open>const id = z.string().min(1).max(128)\<close> and the two request schemas.\<close>

definition id_schema :: zod where
  "id_schema = z_max 128 (z_min 1 z_string)"

definition SessionCreateBody :: zod where
  "SessionCreateBody = ZObject [(''userId'', id_schema), (''sessionId'', ZOptional id_schema)]"

definition RunStreamQuery :: zod where
  "RunStreamQuery = ZObject
     [(''userId'', id_schema),
      (''sessionId'', id_schema),
      (''q'', z_max 2000 (z_min 1 z_string)),
      (''model'', ZOptional z_string),
      (''maxIterations'', ZOptional ZCoerceNumber)]"

text \<open>The own property of an object under a key, \<open>undefined\<close> when there is none.\<close>

definition own_property :: "(string \<times> jsval) list \<Rightarrow> string \<Rightarrow> jsval" where
  "own_property kvs k = (case map_of kvs k of None \<Rightarrow> JUndefined | Some v \<Rightarrow> v)"

text \<open>
  What \<open>schema.safeParse(v)\<close> of the zod library accepts, and the data it then returns
  (\<open>None\<close> is \<open>success: false\<close>). A string schema accepts a string whose length is within
  the bounds; an enum one of its strings; an optional schema also \<open>undefined\<close>; an object
  schema an object each of whose declared keys parses (undeclared keys are dropped).
  \<open>z.coerce.number()\<close> applies JavaScript's \<open>Number\<close> and rejects \<open>NaN\<close>; that coercion
  is the parameter \<open>num\<close>, \<open>None\<close> where it rejects.
\<close>

fun safeParse :: "(jsval \<Rightarrow> jsval option) \<Rightarrow> zod \<Rightarrow> jsval \<Rightarrow> jsval option" where
  "safeParse num (ZString lo hi) v =
     (case v of
        JStr s \<Rightarrow>
          if (case lo of None \<Rightarrow> True | Some n \<Rightarrow> n \<le> length s)
             \<and> (case hi of None \<Rightarrow> True | Some n \<Rightarrow> length s \<le> n)
          then Some (JStr s) else None
      | _ \<Rightarrow> None)"
| "safeParse num (ZEnum vs) v =
     (case v of JStr s \<Rightarrow> if s \<in> set vs then Some (JStr s) else None | _ \<Rightarrow> None)"
| "safeParse num ZCoerceNumber v = num v"
| "safeParse num (ZOptional z) v =
     (if v = JUndefined then Some JUndefined else safeParse num z v)"
| "safeParse num (ZObject shape) v =
     (case v of
        JObj kvs \<Rightarrow>
          (case those (map (\<lambda>kz. safeParse num (snd kz) (own_property kvs (fst kz))) shape) of
             None \<Rightarrow> None
           | Some vs \<Rightarrow>
               Some (JObj (filter (\<lambda>kv. snd kv \<noteq> JUndefined) (zip (map fst shape) vs))))
      | _ \<Rightarrow> None)"

text \<open>
  The acceptance condition in the words of the specification: \<open>userId\<close> and \<open>sessionId\<close>
  are strings of length 1 to 128, \<open>q\<close> is a string of length 1 to 2000.
\<close>

definition string_within :: "nat \<Rightarrow> nat \<Rightarrow> jsval \<Rightarrow> bool" where
  "string_within lo hi v = (case v of JStr s \<Rightarrow> lo \<le> length s \<and> length s \<le> hi | _ \<Rightarrow> False)"

definition accepts_by_lengths :: "jsval \<Rightarrow> bool" where
  "accepts_by_lengths v =
     (case v of
        JObj kvs \<Rightarrow>
          string_within 1 128 (own_property kvs ''userId'')
          \<and> string_within 1 128 (own_property kvs ''sessionId'')
          \<and> string_within 1 2000 (own_property kvs ''q'')
      | _ \<Rightarrow> False)"

text \<open>
  What the schema asks of its two optional keys: \<open>model\<close> absent or a string,
  \<open>maxIterations\<close> absent or accepted by \<open>z.coerce.number()\<close>.
\<close>

fun is_string :: "jsval \<Rightarrow> bool" where
  "is_string (JStr s) = True"
| "is_string v = False"

definition optional_keys_ok :: "(jsval \<Rightarrow> jsval option) \<Rightarrow> jsval \<Rightarrow> bool" where
  "optional_keys_ok num v =
     (case v of
        JObj kvs \<Rightarrow>
          (own_property kvs ''model'' = JUndefined \<or> is_string (own_property kvs ''model''))
          \<and> (own_property kvs ''maxIterations'' = JUndefined
               \<or> num (own_property kvs ''maxIterations'') \<noteq> None)
      | _ \<Rightarrow> False)"

section \<open>The agents (researcher.ts, judge.ts, orchestrator.ts)\<close>

text \<open>
  The configuration object given to \<open>new LlmAgent({...})\<close>. A field the source leaves out
  is \<open>None\<close> (the tool list is then empty). Tools are kept by name.
\<close>

record llm_config =
  name :: string
  model :: string
  description :: string
  instruction :: string
  tools :: "string list"
  outputSchema :: "zod option"
  outputKey :: "string option"
  disallowTransferToParent :: "bool option"
  disallowTransferToPeers :: "bool option"

text \<open>
  The agent tree. \<open>LoopAgent\<close> carries its name, its sub-agents and \<open>maxIterations\<close>;
  \<open>SequentialAgent\<close> its name, its description and its sub-agents; \<open>EscalationChecker\<close>
  its name.
\<close>

datatype agent =
    LlmAgent llm_config
  | EscalationChecker string
  | LoopAgent string "agent list" nat
  | SequentialAgent string string "agent list"

definition JudgeFeedbackSchema :: zod where
  "JudgeFeedbackSchema =
     ZObject [(''status'', ZEnum [''pass'', ''fail'']), (''feedback'', z_string)]"

definition researcher :: agent where
  "researcher = LlmAgent
     \<lparr>name = ''researcher'',
      model = ''gemini-2.5-flash'',
      description = ''Gathers information using Google Search.'',
      instruction = ''You are an expert researcher. Use the search tool to find facts.'',
      tools = [''GOOGLE_SEARCH''],
      outputSchema = None,
      outputKey = None,
      disallowTransferToParent = None,
      disallowTransferToPeers = None\<rparr>"

definition judge :: agent where
  "judge = LlmAgent
     \<lparr>name = ''judge'',
      model = ''gemini-2.5-flash'',
      description = ''Evaluates research findings.'',
      instruction = ''Evaluate the research. Return \"fail\" if info is thin, \"pass\" if complete.'',
      tools = [],
      outputSchema = Some JudgeFeedbackSchema,
      outputKey = Some ''judge_output'',
      disallowTransferToParent = Some True,
      disallowTransferToPeers = Some True\<rparr>"

definition researchLoop :: agent where
  "researchLoop =
     LoopAgent ''research_loop'' [researcher, judge, EscalationChecker ''checker''] 3"

definition courseCreator :: agent where
  "courseCreator =
     SequentialAgent ''course_creator_pipeline'' ''Researches and builds a course.''
       [researchLoop]"

text \<open>Observations on an agent: its kind, its sub-agents, its bound, its output key.\<close>

fun is_Leaf :: "agent \<Rightarrow> bool" where
  "is_Leaf (LlmAgent cfg) = True"
| "is_Leaf a = False"

fun is_Checker :: "agent \<Rightarrow> bool" where
  "is_Checker (EscalationChecker nm) = True"
| "is_Checker a = False"

fun is_Loop :: "agent \<Rightarrow> bool" where
  "is_Loop (LoopAgent nm cs n) = True"
| "is_Loop a = False"

fun is_Sequential :: "agent \<Rightarrow> bool" where
  "is_Sequential (SequentialAgent nm d cs) = True"
| "is_Sequential a = False"

fun subAgents :: "agent \<Rightarrow> agent list" where
  "subAgents (LoopAgent nm cs n) = cs"
| "subAgents (SequentialAgent nm d cs) = cs"
| "subAgents a = []"

fun maxIterations :: "agent \<Rightarrow> nat option" where
  "maxIterations (LoopAgent nm cs n) = Some n"
| "maxIterations a = None"

fun agent_name :: "agent \<Rightarrow> string" where
  "agent_name (LlmAgent cfg) = name cfg"
| "agent_name (EscalationChecker nm) = nm"
| "agent_name (LoopAgent nm cs n) = nm"
| "agent_name (SequentialAgent nm d cs) = nm"

fun agent_outputKey :: "agent \<Rightarrow> string option" where
  "agent_outputKey (LlmAgent cfg) = outputKey cfg"
| "agent_outputKey a = None"

section \<open>The escalation checker (orchestrator.ts)\<close>

definition escalate_event :: "string \<Rightarrow> event" where
  "escalate_event nm =
     createEvent nm
       \<lparr>role = ''model'',
        parts = [\<lparr>part_text = Some ''Research approved. Moving to content creation.''\<rparr>]\<rparr>
       (Some (createEventActions (Some True)))"

definition continue_event :: "string \<Rightarrow> event" where
  "continue_event nm =
     createEvent nm
       \<lparr>role = ''model'',
        parts = [\<lparr>part_text = Some ''Research failed quality check. Retrying...''\<rparr>]\<rparr>
       None"

text \<open>
  \<open>EscalationChecker.runAsyncImpl(ctx)\<close>: the events the generator yields, in order, or
  the exception it throws. \<open>nm\<close> is \<open>this.name\<close>.
\<close>

definition runAsyncImpl :: "string \<Rightarrow> invocation_context \<Rightarrow> js_error + event list" where
  "runAsyncImpl nm ctx =
     (let lastOutput = index_key (state (session ctx)) ''judge_output'' in
      case optional_member lastOutput ''status'' of
        Inl err \<Rightarrow> Inl err
      | Inr st \<Rightarrow>
          if st = JStr ''pass'' then Inr [escalate_event nm]
          else Inr [continue_event nm])"

text \<open>
  The condition in the words of the specification: \<open>state["judge_output"]\<close> is present
  and its status field equals \<open>"pass"\<close>.
\<close>

definition status_is_pass :: "(string \<rightharpoonup> jsval) \<Rightarrow> bool" where
  "status_is_pass st =
     (case st ''judge_output'' of
        Some (JObj kvs) \<Rightarrow> map_of kvs ''status'' = Some (JStr ''pass'')
      | _ \<Rightarrow> False)"

text \<open>A value without a status field: anything but an object that has the key.\<close>

fun no_status_field :: "jsval \<Rightarrow> bool" where
  "no_status_field (JObj kvs) = (map_of kvs ''status'' = None)"
| "no_status_field v = True"

section \<open>The stream endpoint (server.ts)\<close>

subsection \<open>What the handler writes\<close>

text \<open>
  The payload of a \<open>data:\<close> frame, before \<open>JSON.stringify\<close>. A key whose value is
  \<open>undefined\<close> is left out by \<open>JSON.stringify\<close>: \<open>fr_judge_output = None\<close> is a frame
  without the \<open>judge_output\<close> key.
\<close>

record data_frame =
  fr_author :: string
  fr_text :: string
  fr_calls :: "string list"
  fr_responses :: "string list"
  fr_escalate :: bool
  fr_judge_output :: "jsval option"
  fr_reqId :: string

text \<open>The body \<open>{error, code, reqId}\<close> of an error frame and of \<open>sendError\<close>.\<close>

record error_body =
  error :: string
  code :: string
  reqId :: string

text \<open>
  One \<open>res.write\<close>: the preamble \<open>retry: 5000\<close>, the comment line \<open>: keepalive\<close>, a data
  frame for an event, or the data frame of the \<open>catch\<close> branch.
\<close>

datatype frame =
    Retry
  | KeepAlive
  | Data data_frame
  | StreamError error_body

subsection \<open>The library functions the handler calls\<close>

text \<open>
  \<open>stringifyContent\<close>, \<open>getFunctionCalls\<close> and \<open>getFunctionResponses\<close> belong to the ADK; they
  are parameters here. A function call and a function response are kept as their name
  and their payload; \<open>None\<close> is a falsy result, which the handler replaces by \<open>[]\<close>.
  The three functions are taken to return (an exception of theirs would reach the
  \<open>catch\<close> branch like one of the runner).
\<close>

record function_call =
  call_name :: string
  call_args :: jsval

record function_response =
  response_name :: string
  response_value :: jsval

record adk =
  stringifyContent :: "event \<Rightarrow> string"
  getFunctionCalls :: "event \<Rightarrow> function_call list option"
  getFunctionResponses :: "event \<Rightarrow> function_response list option"

subsection \<open>The handler as a state machine over what the event loop delivers\<close>

datatype reason = R_completed | R_aborted | R_error

text \<open>
  Where the handler is suspended: at the \<open>for await\<close> (waiting for the runner's next
  event), at \<open>await sessionService.getSession\<close> inside the loop body for the event it
  holds, or nowhere any more (the \<open>finally\<close> block has run).
\<close>

datatype waiting = AwaitNext | AwaitSession event | Finished

record handler =
  aborted :: bool
  eventCount :: nat
  reason :: reason
  ping :: bool
  sent :: "frame list"
  ended :: bool
  at :: waiting

text \<open>
  What the event loop can deliver: the runner yields an event, throws, or is exhausted;
  the \<open>getSession\<close> promise settles (with the session, with \<open>undefined\<close>, or rejected);
  the request emits \<open>close\<close>; the interval fires.
\<close>

datatype input =
    Next event
  | Throw js_error
  | Return
  | GotSession "js_error + session option"
  | Close
  | Tick

fun message :: "js_error \<Rightarrow> string" where
  "message (TypeError m) = m"
| "message (Error m) = m"

text \<open>
  \<open>judge_output = session?.state?.['judge_output']\<close> inside \<open>try\<close>; a rejection is ignored
  and leaves \<open>judge_output\<close> undefined.
\<close>

definition peek_judge_output :: "js_error + session option \<Rightarrow> jsval" where
  "peek_judge_output r =
     (case r of
        Inl err \<Rightarrow> JUndefined
      | Inr None \<Rightarrow> JUndefined
      | Inr (Some sess) \<Rightarrow> index_key (state sess) ''judge_output'')"

text \<open>The object given to \<open>send\<close> for an event.\<close>

definition event_frame :: "adk \<Rightarrow> string \<Rightarrow> event \<Rightarrow> jsval \<Rightarrow> data_frame" where
  "event_frame lib rid e judge_output =
     \<lparr>fr_author = (case author e of None \<Rightarrow> ''system'' | Some a \<Rightarrow> a),
      fr_text = stringifyContent lib e,
      fr_calls = map call_name (case getFunctionCalls lib e of None \<Rightarrow> [] | Some cs \<Rightarrow> cs),
      fr_responses =
        map response_name (case getFunctionResponses lib e of None \<Rightarrow> [] | Some rs \<Rightarrow> rs),
      fr_escalate = (actions_escalate e = Some True),
      fr_judge_output = (if judge_output = JUndefined then None else Some judge_output),
      fr_reqId = rid\<rparr>"

definition send :: "frame \<Rightarrow> handler \<Rightarrow> handler" where
  "send fr h = h\<lparr>sent := sent h @ [fr]\<rparr>"

text \<open>The \<open>finally\<close> block: \<open>clearInterval(ping); res.end()\<close>.\<close>

definition finally_block :: "handler \<Rightarrow> handler" where
  "finally_block h = h\<lparr>ping := False, ended := True, at := Finished\<rparr>"

text \<open>
  The state when the \<open>for await\<close> starts: headers and preamble written, the interval
  set, the \<open>close\<close> listener registered.
\<close>

definition start :: handler where
  "start = \<lparr>aborted = False, eventCount = 0, reason = R_completed, ping = True,
            sent = [Retry], ended = False, at = AwaitNext\<rparr>"

text \<open>
  One delivery. An input the handler is not waiting for leaves it as it is (the runner
  is not pulled while the handler waits for the session, nor after it has finished).
\<close>

fun step :: "adk \<Rightarrow> string \<Rightarrow> handler \<Rightarrow> input \<Rightarrow> handler" where
  "step lib rid h Tick = (if ping h then send KeepAlive h else h)"
| "step lib rid h Close = h\<lparr>aborted := True, ping := False\<rparr>"
| "step lib rid h (Next e) =
     (case at h of
        AwaitNext \<Rightarrow>
          if aborted h then finally_block (h\<lparr>reason := R_aborted\<rparr>)
          else h\<lparr>at := AwaitSession e\<rparr>
      | _ \<Rightarrow> h)"
| "step lib rid h (GotSession r) =
     (case at h of
        AwaitSession e \<Rightarrow>
          (send (Data (event_frame lib rid e (peek_judge_output r))) h)
            \<lparr>eventCount := eventCount h + 1, at := AwaitNext\<rparr>
      | _ \<Rightarrow> h)"
| "step lib rid h (Throw err) =
     (case at h of
        AwaitNext \<Rightarrow>
          finally_block (send (StreamError \<lparr>error = message err, code = ''stream_error'', reqId = rid\<rparr>)
                     (h\<lparr>reason := R_error\<rparr>))
      | _ \<Rightarrow> h)"
| "step lib rid h Return =
     (case at h of AwaitNext \<Rightarrow> finally_block h | _ \<Rightarrow> h)"

definition serve :: "adk \<Rightarrow> string \<Rightarrow> handler \<Rightarrow> input list \<Rightarrow> handler" where
  "serve lib rid h ins = foldl (step lib rid) h ins"

subsection \<open>The request, up to the start of the stream\<close>

text \<open>
  Of the request: its parsed query, the \<open>x-request-id\<close> header, and the string that
  \<open>randomUUID()\<close> returns for it.
\<close>

record request =
  query :: jsval
  x_request_id :: "string option"
  randomUUID :: string

text \<open>\<open>String(req.headers['x-request-id'] || randomUUID().split('-')[0])\<close>\<close>

definition request_id :: "request \<Rightarrow> string" where
  "request_id req =
     (case x_request_id req of
        None \<Rightarrow> takeWhile (\<lambda>c. c \<noteq> CHR ''-'') (randomUUID req)
      | Some h \<Rightarrow> if h = [] then takeWhile (\<lambda>c. c \<noteq> CHR ''-'') (randomUUID req) else h)"

text \<open>
  What the handler takes from its surroundings: the application name, the number
  coercion of zod, the text of zod's error for a rejected input, and the two operations
  of the session service on a store \<open>'st\<close> (each may throw; a throwing \<open>createSession\<close>
  leaves the store as it was).
\<close>

record 'st env =
  appName :: string
  coerce_number :: "jsval \<Rightarrow> jsval option"
  error_message :: "jsval \<Rightarrow> string"
  getSession :: "'st \<Rightarrow> string \<times> string \<times> string \<Rightarrow> js_error + session option"
  createSession :: "'st \<Rightarrow> string \<times> string \<times> string \<Rightarrow> js_error + 'st"

text \<open>
  How the first part of the handler ends: with a JSON response (status and body), or
  with the stream opened for \<open>userId\<close>, \<open>sessionId\<close> and \<open>q\<close>, the handler in its start
  state.
\<close>

datatype outcome = Replied nat error_body | Streaming string string string handler

text \<open>A string field of the parsed data.\<close>

definition data_string :: "jsval \<Rightarrow> string \<Rightarrow> string" where
  "data_string d k =
     (case d of
        JObj kvs \<Rightarrow> (case own_property kvs k of JStr s \<Rightarrow> s | _ \<Rightarrow> [])
      | _ \<Rightarrow> [])"

text \<open>\<open>sendError(res, status, code, message, reqId)\<close>\<close>

definition sendError :: "nat \<Rightarrow> string \<Rightarrow> string \<Rightarrow> string \<Rightarrow> outcome" where
  "sendError status c m rid = Replied status \<lparr>error = m, code = c, reqId = rid\<rparr>"

text \<open>
  \<open>GET /api/run/stream\<close> from the validation to the start of the loop, with the session
  store before and after.
\<close>

definition run_stream :: "'st env \<Rightarrow> request \<Rightarrow> 'st \<Rightarrow> outcome \<times> 'st" where
  "run_stream env req store =
     (let rid = request_id req in
      case safeParse (coerce_number env) RunStreamQuery (query req) of
        None \<Rightarrow> (sendError 400 ''invalid_request'' (error_message env (query req)) rid, store)
      | Some d \<Rightarrow>
          (let userId = data_string d ''userId'';
               sessionId = data_string d ''sessionId'';
               q = data_string d ''q''
           in case getSession env store (appName env, userId, sessionId) of
                Inl err \<Rightarrow> (sendError 500 ''internal_error'' (message err) rid, store)
              | Inr existing \<Rightarrow>
                  (case (case existing of
                           None \<Rightarrow> createSession env store (appName env, userId, sessionId)
                         | Some sess \<Rightarrow> Inr store) of
                     Inl err \<Rightarrow> (sendError 500 ''internal_error'' (message err) rid, store)
                   | Inr store' \<Rightarrow> (Streaming userId sessionId q start, store'))))"

subsection \<open>Observations on what was written, and invariants of the handler\<close>

fun is_StreamError :: "frame \<Rightarrow> bool" where
  "is_StreamError (StreamError b) = True"
| "is_StreamError f = False"

text \<open>
  What the event loop delivers for one event that the handler forwards: the runner
  yields the event, then the session peek settles.
\<close>

definition forwarded :: "event \<times> (js_error + session option) \<Rightarrow> input list" where
  "forwarded p = [Next (fst p), GotSession (snd p)]"

text \<open>
  What holds of every state reached from \<open>start\<close>: the response is ended exactly when the
  handler has finished, the interval is cleared by then, and an error frame is written
  at most once, and only by a handler that then ends.
\<close>

definition settled :: "handler \<Rightarrow> bool" where
  "settled h = ((ended h \<longleftrightarrow> at h = Finished) \<and> (ended h \<longrightarrow> \<not> ping h)
      \<and> (filter is_StreamError (sent h) = [] \<or> (ended h \<and> length (filter is_StreamError (sent h)) = 1)))"

text \<open>After the \<open>close\<close> listener has run: the flag is set and the interval is cleared.\<close>

definition cancelled :: "handler \<Rightarrow> bool" where
  "cancelled h = (aborted h \<and> \<not> ping h)"

text \<open>
  The frames that can still be written once the handler is cancelled: when the close
  came while the handler was holding an event (its session peek in flight), the frame
  of that event; after it, or otherwise, frames of the \<open>catch\<close> branch only.
\<close>

definition late_frames :: "adk \<Rightarrow> string \<Rightarrow> handler \<Rightarrow> frame list \<Rightarrow> bool" where
  "late_frames lib rid h extra =
     (case at h of
        AwaitSession e \<Rightarrow>
          (\<forall>f \<in> set extra. is_StreamError f)
          \<or> (\<exists>r rest. extra = Data (event_frame lib rid e (peek_judge_output r)) # rest
                \<and> (\<forall>f \<in> set rest. is_StreamError f))
      | _ \<Rightarrow> (\<forall>f \<in> set extra. is_StreamError f))"

text \<open>
  The reading of the specification in which a frame carries the snapshot only when the
  value changed: given the value at the previous frame and, per frame, the current
  value and what the frame carries, an unchanged value is not carried.
\<close>

fun unchanged_not_carried :: "jsval \<Rightarrow> (jsval \<times> jsval option) list \<Rightarrow> bool" where
  "unchanged_not_carried prev [] = True"
| "unchanged_not_carried prev ((cur, carried) # rest) =
     ((if cur = prev then carried = None else True) \<and> unchanged_not_carried cur rest)"

section \<open>The pipeline runner and the Loop stage\<close>

text \<open>
  Modelled from the spec: the external reasoning capability of section 6, which a Leaf
  delegates to. It is given the Leaf and the session and returns the events of the
  delegation, each with the stage's final structured output when that is available.
  The model calls of \<open>LlmAgent\<close> are made inside the ADK library, not in this repository.
\<close>

type_synonym capability = "llm_config \<Rightarrow> session \<Rightarrow> (event \<times> jsval option) list"

text \<open>
  Modelled from the spec: an event as the runner hands it on, with the stage it comes
  from, the \<open>outputKey\<close> that stage declares and the structured output. The \<open>Runner\<close> of the
  ADK library is missing from the sources.
\<close>

record produced =
  origin :: string
  origin_key :: "string option"
  produced_event :: event
  produced_output :: "jsval option"

text \<open>
  Modelled from the spec: the state application of the PipelineRunner (section 4.3): if
  the originating stage declares an \<open>outputKey\<close>, the structured output, once available,
  is merged into \<open>state[outputKey]\<close>, overwriting any prior value; the event is always
  appended to the event log. The \<open>Runner\<close> and the session service of the ADK library
  are missing from the sources.
\<close>

definition apply_effect :: "session \<Rightarrow> produced \<Rightarrow> session" where
  "apply_effect s p =
     \<lparr>state = (case origin_key p of
                 None \<Rightarrow> state s
               | Some k \<Rightarrow> (case produced_output p of
                              None \<Rightarrow> state s
                            | Some v \<Rightarrow> (state s)(k \<mapsto> v))),
      events = events s @ [produced_event p]\<rparr>"

text \<open>
  Modelled from the spec: the terminal states of the Loop stage (section 4.2), and what
  a run of the Loop gives: the events it forwarded, the terminal state, the number of
  body passes and the session it leaves. \<open>LoopAgent\<close> of the ADK library is missing from
  the sources.
\<close>

datatype loop_end = Escalated | Exhausted

record loop_result =
  lr_items :: "produced list"
  lr_end :: loop_end
  lr_passes :: nat
  lr_session :: session

text \<open>
  Modelled from the spec: the escalation test of the Loop (section 4.2, step 3 and the
  tie-break): the last event that the pass produced carries \<open>actions.escalate = true\<close>.
\<close>

definition ends_with_escalate :: "produced list \<Rightarrow> bool" where
  "ends_with_escalate ps =
     (ps \<noteq> [] \<and> actions_escalate (produced_event (last ps)) = Some True)"

text \<open>
  Modelled from the spec: the state machine of the Loop stage (section 4.2), which stands
  for \<open>LoopAgent\<close> of the ADK library. \<open>loop_from body n i s\<close> is the state \<open>Running(i)\<close>
  entered with session \<open>s\<close>: with \<open>i < n\<close> the body runs one pass and its events are
  forwarded; if the pass ends with an escalate event the Loop is \<open>Escalated\<close>; otherwise
  \<open>i\<close> is incremented, and the Loop is \<open>Exhausted\<close> when it reaches \<open>n\<close> and \<open>Running(i)\<close>
  again when not. Entered with \<open>i\<close> not below \<open>n\<close> (only for \<open>n = 0\<close>, which the
  specification excludes) the Loop is \<open>Exhausted\<close> at once.
\<close>

function loop_from ::
  "(session \<Rightarrow> produced list \<times> session) \<Rightarrow> nat \<Rightarrow> nat \<Rightarrow> session \<Rightarrow> loop_result" where
  "loop_from body n i s =
     (if i < n then
        (case body s of
           (ps, s1) \<Rightarrow>
             if ends_with_escalate ps then
               \<lparr>lr_items = ps, lr_end = Escalated, lr_passes = 1, lr_session = s1\<rparr>
             else if Suc i = n then
               \<lparr>lr_items = ps, lr_end = Exhausted, lr_passes = 1, lr_session = s1\<rparr>
             else
               (let r = loop_from body n (Suc i) s1
                in r\<lparr>lr_items := ps @ lr_items r, lr_passes := Suc (lr_passes r)\<rparr>))
      else \<lparr>lr_items = [], lr_end = Exhausted, lr_passes = 0, lr_session = s\<rparr>)"
  by pat_completeness auto
termination
  by (relation "measure (\<lambda>(body, n, i, s). n - i)") auto

declare loop_from.simps [simp del]

definition loop_run ::
  "(session \<Rightarrow> produced list \<times> session) \<Rightarrow> nat \<Rightarrow> session \<Rightarrow> loop_result" where
  "loop_run body n s = loop_from body n 0 s"

text \<open>
  Modelled from the spec: what a Leaf and the Checker hand to the runner (section 4.1):
  a Leaf forwards the events of its delegation unmodified, under its name and output
  key; the Checker yields the events of \<open>EscalationChecker.runAsyncImpl\<close>, which never
  throws.
\<close>

definition leaf_items :: "llm_config \<Rightarrow> (event \<times> jsval option) list \<Rightarrow> produced list" where
  "leaf_items cfg xs =
     map (\<lambda>x. \<lparr>origin = name cfg, origin_key = outputKey cfg,
                produced_event = fst x, produced_output = snd x\<rparr>) xs"

definition checker_items :: "string \<Rightarrow> session \<Rightarrow> produced list" where
  "checker_items nm s =
     map (\<lambda>e. \<lparr>origin = nm, origin_key = None, produced_event = e, produced_output = None\<rparr>)
       (case runAsyncImpl nm \<lparr>session = s\<rparr> of Inl err \<Rightarrow> [] | Inr evs \<Rightarrow> evs)"

text \<open>
  Modelled from the spec: the stage execution contract (section 4.1) with the runner's
  state application (section 4.3), for \<open>LlmAgent\<close>, \<open>SequentialAgent\<close> and \<open>LoopAgent\<close> of
  the ADK library. A stage gives the events it produces and the session after the
  effect of each has been applied; a Sequential runs its children in order, each from
  the session the previous one left; a Loop runs its children as the body of the state
  machine above.
\<close>

fun run_agent :: "capability \<Rightarrow> agent \<Rightarrow> session \<Rightarrow> produced list \<times> session"
  and run_children :: "capability \<Rightarrow> agent list \<Rightarrow> session \<Rightarrow> produced list \<times> session" where
  "run_agent cap (LlmAgent cfg) s =
     (let ps = leaf_items cfg (cap cfg s) in (ps, foldl apply_effect s ps))"
| "run_agent cap (EscalationChecker nm) s =
     (let ps = checker_items nm s in (ps, foldl apply_effect s ps))"
| "run_agent cap (SequentialAgent nm d cs) s = run_children cap cs s"
| "run_agent cap (LoopAgent nm cs n) s =
     (let r = loop_run (\<lambda>s'. run_children cap cs s') n s in (lr_items r, lr_session r))"
| "run_children cap [] s = ([], s)"
| "run_children cap (c # cs) s =
     (case run_agent cap c s of
        (ps, s1) \<Rightarrow> (case run_children cap cs s1 of (ps', s2) \<Rightarrow> (ps @ ps', s2)))"

text \<open>
  Observations on a loop body: the session after \<open>k\<close> successive passes, the events of
  \<open>k\<close> successive passes, and whether pass \<open>j + 1\<close> ends with an escalate event.
\<close>

primrec pass_session :: "(session \<Rightarrow> produced list \<times> session) \<Rightarrow> nat \<Rightarrow> session \<Rightarrow> session" where
  "pass_session body 0 s = s"
| "pass_session body (Suc k) s = pass_session body k (snd (body s))"

primrec pass_items :: "(session \<Rightarrow> produced list \<times> session) \<Rightarrow> nat \<Rightarrow> session \<Rightarrow> produced list" where
  "pass_items body 0 s = []"
| "pass_items body (Suc k) s = fst (body s) @ pass_items body k (snd (body s))"

definition escalates_at :: "(session \<Rightarrow> produced list \<times> session) \<Rightarrow> session \<Rightarrow> nat \<Rightarrow> bool" where
  "escalates_at body s j = ends_with_escalate (fst (body (pass_session body j s)))"

text \<open>
  The values written under a key by a sequence of produced events, in order, and the
  structured outputs of the events of one stage, in order.
\<close>

definition writes :: "string \<Rightarrow> produced list \<Rightarrow> jsval list" where
  "writes k ps =
     List.map_filter (\<lambda>p. if origin_key p = Some k then produced_output p else None) ps"

definition outputs_of :: "string \<Rightarrow> produced list \<Rightarrow> jsval list" where
  "outputs_of nm ps =
     List.map_filter (\<lambda>p. if origin p = nm then produced_output p else None) ps"

section \<open>Sample inputs\<close>

text \<open>
  A stand-in for the library functions (the text of an event is the concatenation of
  its text parts), a session in which the judge has said \<open>fail\<close>, an event of the judge
  and an event that carries an error code.
\<close>

definition sample_lib :: adk where
  "sample_lib = \<lparr>stringifyContent = (\<lambda>e. case content e of None \<Rightarrow> [] | Some c \<Rightarrow> concat (map (\<lambda>p. case part_text p of None \<Rightarrow> [] | Some t \<Rightarrow> t) (parts c))),
      getFunctionCalls = (\<lambda>e. None), getFunctionResponses = (\<lambda>e. Some [])\<rparr>"

definition judge_said_fail :: session where
  "judge_said_fail = \<lparr>state = [''judge_output'' \<mapsto> JObj [(''status'', JStr ''fail''), (''feedback'', JStr ''thin'')]], events = []\<rparr>"

definition judge_event :: event where
  "judge_event = \<lparr>author = Some ''judge'', content = None, actions = None, errorCode = None\<rparr>"

definition failed_event :: event where
  "failed_event = \<lparr>author = Some ''researcher'', content = None, actions = None, errorCode = Some ''UNKNOWN_ERROR''\<rparr>"

definition sample_env :: "(string \<times> string \<times> string \<rightharpoonup> session) env" where
  "sample_env =
     \<lparr>appName = ''ts-multi-agents'',
      coerce_number = (\<lambda>v. None),
      error_message = (\<lambda>v. ''Invalid input''),
      getSession = (\<lambda>st k. Inr (st k)),
      createSession = (\<lambda>st k. Inr (st(k \<mapsto> \<lparr>state = Map.empty, events = []\<rparr>)))\<rparr>"

text \<open>
  An event of the researcher, an empty session, and stand-ins for the reasoning
  capability: one whose judge always says \<open>fail\<close>, one whose judge says \<open>pass\<close> once five
  events are in the log when the pass starts (the third pass), and one that yields
  three events, the first and the last with an output.
\<close>

definition researcher_event :: event where
  "researcher_event = \<lparr>author = Some ''researcher'', content = None, actions = None, errorCode = None\<rparr>"

definition fresh :: session where
  "fresh = \<lparr>state = Map.empty, events = []\<rparr>"

definition never_passes :: capability where
  "never_passes cfg s =
     (if name cfg = ''judge''
      then [(judge_event, Some (JObj [(''status'', JStr ''fail''), (''feedback'', JStr ''thin'')]))]
      else [(researcher_event, None)])"

definition passes_third :: capability where
  "passes_third cfg s =
     (if name cfg = ''judge''
      then [(judge_event,
             Some (JObj [(''status'', JStr (if length (events s) < 6 then ''fail'' else ''pass''))]))]
      else [(researcher_event, None)])"

definition drafts_then_final :: capability where
  "drafts_then_final cfg s =
     [(judge_event, Some (JObj [(''status'', JStr ''fail'')])),
      (judge_event, None),
      (judge_event, Some (JObj [(''status'', JStr ''pass'')]))]"

text \<open>
  A session that still holds a judge output with status \<open>pass\<close> from an earlier run, and
  a stand-in for the reasoning capability whose delegations yield one event each with
  no structured output.
\<close>

definition stale_pass :: session where
  "stale_pass =
     \<lparr>state = [''judge_output'' \<mapsto> JObj [(''status'', JStr ''pass''), (''feedback'', JStr ''ok'')]],
      events = []\<rparr>"

definition silent_judge :: capability where
  "silent_judge cfg s =
     [(if name cfg = ''judge'' then judge_event else researcher_event, None)]"

section \<open>The checker decides from the state alone\<close>

lemma optional_member_total: "\<exists>v. optional_member x k = Inr v"
  by (cases x) (simp_all add: optional_member_def)

lemma optional_member_status:
  "optional_member (index_key st ''judge_output'') ''status'' = Inr (JStr ''pass'')
     \<longleftrightarrow> status_is_pass st"
proof (cases "st ''judge_output''")
  case None
  then show ?thesis
    by (simp add: optional_member_def index_key_def status_is_pass_def)
next
  case (Some v)
  then show ?thesis
    by (cases v) (auto simp: optional_member_def index_key_def status_is_pass_def
        split: option.splits)
qed

lemma runAsyncImpl_eq:
  "runAsyncImpl nm ctx =
     Inr [if status_is_pass (state (session ctx)) then escalate_event nm else continue_event nm]"
proof -
  obtain v where v: "optional_member (index_key (state (session ctx)) ''judge_output'') ''status'' = Inr v"
    using optional_member_total by blast
  have "v = JStr ''pass'' \<longleftrightarrow> status_is_pass (state (session ctx))"
    using optional_member_status [of "state (session ctx)"] v by simp
  then show ?thesis
    by (simp add: runAsyncImpl_def v)
qed

lemma checker_examples:
  "runAsyncImpl ''checker''
     \<lparr>session = \<lparr>state = [''judge_output'' \<mapsto> JObj [(''status'', JStr ''pass''), (''feedback'', JStr ''ok'')]],
                 events = []\<rparr>\<rparr> = Inr [escalate_event ''checker'']"
  "runAsyncImpl ''checker''
     \<lparr>session = \<lparr>state = [''judge_output'' \<mapsto> JObj [(''status'', JStr ''fail''), (''feedback'', JStr ''thin'')]],
                 events = []\<rparr>\<rparr> = Inr [continue_event ''checker'']"
  "runAsyncImpl ''checker''
     \<lparr>session = \<lparr>state = [''judge_output'' \<mapsto> JStr ''pass''], events = []\<rparr>\<rparr>
     = Inr [continue_event ''checker'']"
  "actions_escalate (escalate_event ''checker'') = Some True"
  "actions_escalate (continue_event ''checker'') = None"
  by (simp_all add: runAsyncImpl_def index_key_def optional_member_def actions_escalate_def
      escalate_event_def continue_event_def createEvent_def createEventActions_def)

text \<open>
  C1. The checker yields exactly one event. It carries \<open>actions.escalate = true\<close> if and
  only if \<open>state["judge_output"]\<close> is present and its status field equals \<open>"pass"\<close>; in
  every other case it is the continue event, which has no escalate flag. The run is a
  function of the value of \<open>state["judge_output"]\<close> (and of the checker's name) alone.
\<close>

theorem checker_escalates_iff_pass:
  "(\<exists>e. runAsyncImpl nm ctx = Inr [e]
        \<and> e = (if status_is_pass (state (session ctx)) then escalate_event nm else continue_event nm)
        \<and> (actions_escalate e = Some True \<longleftrightarrow> status_is_pass (state (session ctx)))
        \<and> (actions_escalate e = None \<longleftrightarrow> \<not> status_is_pass (state (session ctx))))
   \<and> (\<exists>f. \<forall>c. runAsyncImpl nm c = f (state (session c) ''judge_output''))"
proof
  show "\<exists>e. runAsyncImpl nm ctx = Inr [e]
        \<and> e = (if status_is_pass (state (session ctx)) then escalate_event nm else continue_event nm)
        \<and> (actions_escalate e = Some True \<longleftrightarrow> status_is_pass (state (session ctx)))
        \<and> (actions_escalate e = None \<longleftrightarrow> \<not> status_is_pass (state (session ctx)))"
    by (simp add: runAsyncImpl_eq actions_escalate_def escalate_event_def continue_event_def
        createEvent_def createEventActions_def)
next
  let ?f = "\<lambda>jo. case optional_member (case jo of None \<Rightarrow> JUndefined | Some v \<Rightarrow> v) ''status'' of
                    Inl err \<Rightarrow> Inl err
                  | Inr st \<Rightarrow> if st = JStr ''pass'' then Inr [escalate_event nm]
                              else Inr [continue_event nm]"
  show "\<exists>f. \<forall>c. runAsyncImpl nm c = f (state (session c) ''judge_output'')"
    by (rule exI [where x = ?f]) (simp add: runAsyncImpl_def index_key_def)
qed

text \<open>
  C8. The root of the pipeline is a Sequential composition whose only child is one Loop;
  the body of the Loop is, in order, the researcher Leaf, the judge Leaf with output key
  \<open>"judge_output"\<close> and a Checker; \<open>maxIterations\<close> is 3.
\<close>

theorem courseCreator_shape:
  "is_Sequential courseCreator
   \<and> subAgents courseCreator = [researchLoop]
   \<and> length (filter is_Loop (subAgents courseCreator)) = 1
   \<and> is_Loop researchLoop
   \<and> maxIterations researchLoop = Some 3
   \<and> subAgents researchLoop = [researcher, judge, EscalationChecker ''checker'']
   \<and> is_Leaf researcher \<and> agent_name researcher = ''researcher''
   \<and> agent_outputKey researcher = None
   \<and> is_Leaf judge \<and> agent_name judge = ''judge''
   \<and> agent_outputKey judge = Some ''judge_output''
   \<and> is_Checker (subAgents researchLoop ! 2)"
  by (simp add: courseCreator_def researchLoop_def researcher_def judge_def)

section \<open>The stream handler: what it writes and when it stops\<close>

lemma serve_Nil [simp]: "serve lib rid h [] = h"
  by (simp add: serve_def)

lemma serve_Cons [simp]: "serve lib rid h (i # ins) = serve lib rid (step lib rid h i) ins"
  by (simp add: serve_def)

lemma serve_append: "serve lib rid h (xs @ ys) = serve lib rid (serve lib rid h xs) ys"
  by (simp add: serve_def)

lemma serve_forwarded:
  "at h = AwaitNext \<Longrightarrow> \<not> aborted h \<Longrightarrow>
   serve lib rid h (concat (map forwarded ers)) =
     h\<lparr>eventCount := eventCount h + length ers,
       sent := sent h @ map (\<lambda>p. Data (event_frame lib rid (fst p) (peek_judge_output (snd p)))) ers\<rparr>"
proof (induction ers arbitrary: h)
  case Nil
  then show ?case by simp
next
  case (Cons p ers)
  let ?h1 = "(send (Data (event_frame lib rid (fst p) (peek_judge_output (snd p)))) h)
            \<lparr>eventCount := eventCount h + 1, at := AwaitNext\<rparr>"
  have s: "serve lib rid h (forwarded p) = ?h1"
    using Cons.prems by (simp add: forwarded_def send_def)
  have "at ?h1 = AwaitNext" "\<not> aborted ?h1"
    using Cons.prems by (simp_all add: send_def)
  from Cons.IH [OF this] show ?case
    using Cons.prems by (simp add: serve_append s send_def)
qed


text \<open>Every state reached from \<open>start\<close> is settled.\<close>

lemma settled_start: "settled start"
  by (simp add: settled_def start_def)

lemma settled_step: "settled h \<Longrightarrow> settled (step lib rid h i)"
  by (cases i; cases "at h") (auto simp: settled_def send_def finally_block_def)

lemma settled_serve: "settled h \<Longrightarrow> settled (serve lib rid h ins)"
  by (induction ins arbitrary: h) (simp_all add: settled_step)

lemma ended_step_sent:
  "at h = Finished \<Longrightarrow> \<not> ping h \<Longrightarrow>
   sent (step lib rid h i) = sent h \<and> at (step lib rid h i) = Finished
   \<and> \<not> ping (step lib rid h i) \<and> ended (step lib rid h i) = ended h"
  by (cases i) simp_all

lemma ended_serve_sent:
  "at h = Finished \<Longrightarrow> \<not> ping h \<Longrightarrow>
   sent (serve lib rid h ins) = sent h \<and> ended (serve lib rid h ins) = ended h"
proof (induction ins arbitrary: h)
  case Nil
  then show ?case by simp
next
  case (Cons i ins)
  have "at (step lib rid h i) = Finished" "\<not> ping (step lib rid h i)"
    using ended_step_sent [OF Cons.prems] by simp_all
  from Cons.IH [OF this] show ?case
    using ended_step_sent [OF Cons.prems, of lib rid i] by simp
qed

text \<open>Cancellation is never undone.\<close>

lemma cancelled_Close: "cancelled (step lib rid h Close)"
  by (simp add: cancelled_def)

lemma cancelled_step: "cancelled h \<Longrightarrow> cancelled (step lib rid h i)"
  by (cases i; cases "at h") (auto simp: cancelled_def send_def finally_block_def)

lemma cancelled_serve: "cancelled h \<Longrightarrow> cancelled (serve lib rid h ins)"
  by (induction ins arbitrary: h) (simp_all add: cancelled_step)

text \<open>Once cancelled and not holding an event, only the \<open>catch\<close> branch can still write.\<close>

lemma cancelled_idle_step:
  assumes "cancelled h" and "\<forall>e. at h \<noteq> AwaitSession e"
  shows "(\<forall>e. at (step lib rid h i) \<noteq> AwaitSession e)
       \<and> (\<exists>extra. sent (step lib rid h i) = sent h @ extra \<and> (\<forall>f \<in> set extra. is_StreamError f))"
  using assms
  by (cases i; cases "at h") (auto simp: cancelled_def send_def finally_block_def)

lemma cancelled_idle_serve:
  assumes "cancelled h" and "\<forall>e. at h \<noteq> AwaitSession e"
  shows "\<exists>extra. sent (serve lib rid h ins) = sent h @ extra \<and> (\<forall>f \<in> set extra. is_StreamError f)"
  using assms
proof (induction ins arbitrary: h)
  case Nil
  then show ?case by simp
next
  case (Cons i ins)
  from cancelled_idle_step [OF Cons.prems, of lib rid i]
  obtain x1 where 1: "\<forall>e. at (step lib rid h i) \<noteq> AwaitSession e"
    "sent (step lib rid h i) = sent h @ x1" "\<forall>f \<in> set x1. is_StreamError f"
    by blast
  from Cons.IH [OF cancelled_step [OF Cons.prems(1)] 1(1)]
  obtain x2 where 2: "sent (serve lib rid (step lib rid h i) ins) = sent (step lib rid h i) @ x2"
    "\<forall>f \<in> set x2. is_StreamError f"
    by blast
  have "sent (serve lib rid h (i # ins)) = sent h @ (x1 @ x2)"
    using 1 2 by simp
  moreover have "\<forall>f \<in> set (x1 @ x2). is_StreamError f"
    using 1 2 by auto
  ultimately show ?case by blast
qed

lemma only_errors_no_keepalive: "\<forall>f \<in> set xs. is_StreamError f \<Longrightarrow> KeepAlive \<notin> set xs"
  by (induction xs) auto

lemma cancelled_any_serve:
  assumes "cancelled h"
  shows "\<exists>extra. sent (serve lib rid h ins) = sent h @ extra \<and> late_frames lib rid h extra"
  using assms
proof (induction ins arbitrary: h)
  case Nil
  then show ?case by (simp add: late_frames_def split: waiting.splits)
next
  case (Cons i ins)
  show ?case
  proof (cases "\<forall>e. at h \<noteq> AwaitSession e")
    case True
    from cancelled_idle_serve [OF Cons.prems True, of lib rid "i # ins"]
    show ?thesis using True by (auto simp: late_frames_def split: waiting.splits)
  next
    case False
    then obtain e where e: "at h = AwaitSession e" by blast
    show ?thesis
    proof (cases "\<exists>r. i = GotSession r")
      case True
      then obtain r where r: "i = GotSession r" by blast
      let ?h1 = "step lib rid h i"
      have c1: "cancelled ?h1" by (rule cancelled_step [OF Cons.prems])
      have a1: "\<forall>e. at ?h1 \<noteq> AwaitSession e" using e r by simp
      have s1: "sent ?h1 = sent h @ [Data (event_frame lib rid e (peek_judge_output r))]"
        using e r by (simp add: send_def)
      from cancelled_idle_serve [OF c1 a1, of lib rid ins]
      obtain x2 where 2: "sent (serve lib rid ?h1 ins) = sent ?h1 @ x2" "\<forall>f \<in> set x2. is_StreamError f"
        by blast
      have "sent (serve lib rid h (i # ins)) = sent h @ (Data (event_frame lib rid e (peek_judge_output r)) # x2)"
        using s1 2 by simp
      then show ?thesis using 2(2) e by (auto simp: late_frames_def)
    next
      case False
      have same: "at (step lib rid h i) = AwaitSession e \<and> sent (step lib rid h i) = sent h"
        using False e Cons.prems by (cases i) (auto simp: cancelled_def)
      from Cons.IH [OF cancelled_step [OF Cons.prems, of lib rid i]]
      obtain x where "sent (serve lib rid (step lib rid h i) ins) = sent (step lib rid h i) @ x"
        "late_frames lib rid (step lib rid h i) x" by blast
      then show ?thesis using same e by (auto simp: late_frames_def)
    qed
  qed
qed


text \<open>
  C4 (as the code has it). For every event the handler forwards, the frame holds the
  author (\<open>system\<close> when the event has none), the text, the names of the function calls
  and of the function responses, the escalate flag as a boolean, the request id, and
  the value of \<open>judge_output\<close> in the session state at that moment whenever there is one,
  whether or not it differs from the value at the previous frame; the key is left out
  only when the state has no such value (or the session could not be read).
\<close>

theorem frames_of_forwarded_events:
  "sent (serve lib rid start (concat (map forwarded ers) @ [Return])) =
     Retry # map (\<lambda>p. Data
        \<lparr>fr_author = (case author (fst p) of None \<Rightarrow> ''system'' | Some a \<Rightarrow> a),
         fr_text = stringifyContent lib (fst p),
         fr_calls = map call_name (case getFunctionCalls lib (fst p) of None \<Rightarrow> [] | Some cs \<Rightarrow> cs),
         fr_responses = map response_name (case getFunctionResponses lib (fst p) of None \<Rightarrow> [] | Some rs \<Rightarrow> rs),
         fr_escalate = (actions_escalate (fst p) = Some True),
         fr_judge_output =
           (case snd p of
              Inr (Some sess) \<Rightarrow>
                (case state sess ''judge_output'' of
                   None \<Rightarrow> None
                 | Some v \<Rightarrow> if v = JUndefined then None else Some v)
            | _ \<Rightarrow> None),
         fr_reqId = rid\<rparr>) ers
   \<and> ended (serve lib rid start (concat (map forwarded ers) @ [Return]))
   \<and> eventCount (serve lib rid start (concat (map forwarded ers) @ [Return])) = length ers"
proof -
  have a: "at start = AwaitNext" "\<not> aborted start"
    by (simp_all add: start_def)
  have f: "event_frame lib rid e (peek_judge_output r) =
        \<lparr>fr_author = (case author e of None \<Rightarrow> ''system'' | Some a \<Rightarrow> a),
         fr_text = stringifyContent lib e,
         fr_calls = map call_name (case getFunctionCalls lib e of None \<Rightarrow> [] | Some cs \<Rightarrow> cs),
         fr_responses = map response_name (case getFunctionResponses lib e of None \<Rightarrow> [] | Some rs \<Rightarrow> rs),
         fr_escalate = (actions_escalate e = Some True),
         fr_judge_output =
           (case r of
              Inr (Some sess) \<Rightarrow>
                (case state sess ''judge_output'' of
                   None \<Rightarrow> None
                 | Some v \<Rightarrow> if v = JUndefined then None else Some v)
            | _ \<Rightarrow> None),
         fr_reqId = rid\<rparr>" for e r
    by (simp add: event_frame_def peek_judge_output_def index_key_def split: sum.splits option.splits)
  have r: "serve lib rid start (concat (map forwarded ers) @ [Return]) =
      finally_block (start\<lparr>eventCount := eventCount start + length ers,
        sent := sent start @ map (\<lambda>p. Data (event_frame lib rid (fst p) (peek_judge_output (snd p)))) ers\<rparr>)"
    using a by (simp add: serve_append serve_forwarded [OF a])
  show ?thesis
    unfolding r by (simp add: f finally_block_def start_def)
qed

text \<open>
  Against C4 as stated: two events forwarded while \<open>judge_output\<close> stays the same are both
  sent with the snapshot.
\<close>

theorem unchanged_judge_output_sent_again:
  "sent (serve sample_lib ''r1'' start
      (forwarded (judge_event, Inr (Some judge_said_fail))
       @ forwarded (continue_event ''checker'', Inr (Some judge_said_fail)) @ [Return]))
   = [Retry,
      Data \<lparr>fr_author = ''judge'', fr_text = [], fr_calls = [], fr_responses = [],
            fr_escalate = False,
            fr_judge_output = Some (JObj [(''status'', JStr ''fail''), (''feedback'', JStr ''thin'')]),
            fr_reqId = ''r1''\<rparr>,
      Data \<lparr>fr_author = ''checker'', fr_text = ''Research failed quality check. Retrying...'',
            fr_calls = [], fr_responses = [], fr_escalate = False,
            fr_judge_output = Some (JObj [(''status'', JStr ''fail''), (''feedback'', JStr ''thin'')]),
            fr_reqId = ''r1''\<rparr>]
   \<and> \<not> unchanged_not_carried JUndefined
        [(JObj [(''status'', JStr ''fail''), (''feedback'', JStr ''thin'')],
          Some (JObj [(''status'', JStr ''fail''), (''feedback'', JStr ''thin'')])),
         (JObj [(''status'', JStr ''fail''), (''feedback'', JStr ''thin'')],
          Some (JObj [(''status'', JStr ''fail''), (''feedback'', JStr ''thin'')]))]"
  by (simp add: forwarded_def start_def send_def finally_block_def event_frame_def
      peek_judge_output_def index_key_def sample_lib_def judge_event_def judge_said_fail_def
      continue_event_def createEvent_def actions_escalate_def)

text \<open>
  C5. When the request closes, the handler sets \<open>aborted\<close> and clears the keep-alive
  interval at once, writing nothing. From then on, whatever is delivered: no keep-alive
  is written; no frame is written for an event the runner yields after the close (the
  only event frame still possible is that of an event the handler was already holding
  when the close came); and the next event the runner yields makes the handler leave
  the loop, end the response and record the reason \<open>aborted\<close>, without a frame.
\<close>

theorem close_stops_stream:
  "aborted (step lib rid h Close) \<and> \<not> ping (step lib rid h Close)
   \<and> sent (step lib rid h Close) = sent h
   \<and> aborted (serve lib rid (step lib rid h Close) ins)
   \<and> \<not> ping (serve lib rid (step lib rid h Close) ins)
   \<and> (\<exists>extra. sent (serve lib rid (step lib rid h Close) ins) = sent h @ extra
         \<and> KeepAlive \<notin> set extra \<and> late_frames lib rid h extra)
   \<and> (at (serve lib rid (step lib rid h Close) ins) = AwaitNext \<longrightarrow>
        (\<forall>e. at (step lib rid (serve lib rid (step lib rid h Close) ins) (Next e)) = Finished
           \<and> ended (step lib rid (serve lib rid (step lib rid h Close) ins) (Next e))
           \<and> reason (step lib rid (serve lib rid (step lib rid h Close) ins) (Next e)) = R_aborted
           \<and> sent (step lib rid (serve lib rid (step lib rid h Close) ins) (Next e))
               = sent (serve lib rid (step lib rid h Close) ins)))"
proof -
  let ?h1 = "step lib rid h Close"
  let ?h2 = "serve lib rid ?h1 ins"
  have c1: "cancelled ?h1" by (rule cancelled_Close)
  have c2: "cancelled ?h2" by (rule cancelled_serve [OF c1])
  from cancelled_any_serve [OF c1, of lib rid ins]
  obtain extra where x: "sent ?h2 = sent ?h1 @ extra" "late_frames lib rid ?h1 extra"
    by blast
  have l: "late_frames lib rid h extra"
    using x(2) by (simp add: late_frames_def)
  have k: "KeepAlive \<notin> set extra"
    using l only_errors_no_keepalive by (auto simp: late_frames_def split: waiting.splits)
  have "\<exists>extra. sent ?h2 = sent h @ extra \<and> KeepAlive \<notin> set extra \<and> late_frames lib rid h extra"
    using x(1) l k by auto
  moreover have "at ?h2 = AwaitNext \<longrightarrow>
        (\<forall>e. at (step lib rid ?h2 (Next e)) = Finished
           \<and> ended (step lib rid ?h2 (Next e))
           \<and> reason (step lib rid ?h2 (Next e)) = R_aborted
           \<and> sent (step lib rid ?h2 (Next e)) = sent ?h2)"
    using c2 by (simp add: cancelled_def finally_block_def)
  ultimately show ?thesis
    using c1 c2 by (simp add: cancelled_def)
qed

theorem close_stops_stream_witness:
  "at (serve sample_lib ''r1'' start [Next judge_event, GotSession (Inr None), Tick, Close, Tick]) = AwaitNext
   \<and> ended (serve sample_lib ''r1'' start
        [Next judge_event, GotSession (Inr None), Tick, Close, Tick, Next judge_event])
   \<and> sent (serve sample_lib ''r1'' start
        [Next judge_event, GotSession (Inr None), Tick, Close, Tick, Next judge_event])
      = [Retry,
         Data \<lparr>fr_author = ''judge'', fr_text = [], fr_calls = [], fr_responses = [],
               fr_escalate = False, fr_judge_output = None, fr_reqId = ''r1''\<rparr>,
         KeepAlive]"
  using close_stops_stream [of sample_lib "''r1''"
      "serve sample_lib ''r1'' start [Next judge_event, GotSession (Inr None), Tick]" "[Tick]"]
  by (simp add: start_def send_def finally_block_def event_frame_def
      peek_judge_output_def sample_lib_def judge_event_def actions_escalate_def)

text \<open>
  The exception path. In every state the handler reaches: at most one error frame has
  been written; the response is ended exactly when the handler has finished, and then
  the interval is cleared and nothing is ever written again. While the handler waits
  for the runner, no error frame has been written yet; an exception of the runner then
  writes exactly one error frame \<open>{error, code: stream_error, reqId}\<close> as the last frame
  and ends the response; exhaustion ends it with no further frame; so does the next
  event once \<open>aborted\<close> is set.
\<close>

lemma exception_frame_once_then_end:
  "length (filter is_StreamError (sent (serve lib rid start ins))) \<le> 1
   \<and> (ended (serve lib rid start ins) \<longleftrightarrow> at (serve lib rid start ins) = Finished)
   \<and> (ended (serve lib rid start ins) \<longrightarrow>
        \<not> ping (serve lib rid start ins)
        \<and> (\<forall>more. sent (serve lib rid (serve lib rid start ins) more) = sent (serve lib rid start ins)
                 \<and> ended (serve lib rid (serve lib rid start ins) more)))
   \<and> (at (serve lib rid start ins) = AwaitNext \<longrightarrow>
        filter is_StreamError (sent (serve lib rid start ins)) = []
        \<and> (\<forall>err. sent (step lib rid (serve lib rid start ins) (Throw err))
                   = sent (serve lib rid start ins)
                     @ [StreamError \<lparr>error = message err, code = ''stream_error'', reqId = rid\<rparr>]
                \<and> ended (step lib rid (serve lib rid start ins) (Throw err)))
        \<and> ended (step lib rid (serve lib rid start ins) Return)
        \<and> sent (step lib rid (serve lib rid start ins) Return) = sent (serve lib rid start ins)
        \<and> (aborted (serve lib rid start ins) \<longrightarrow>
             (\<forall>e. ended (step lib rid (serve lib rid start ins) (Next e))
                \<and> sent (step lib rid (serve lib rid start ins) (Next e))
                    = sent (serve lib rid start ins))))"
proof -
  let ?h = "serve lib rid start ins"
  have s: "settled ?h"
    by (rule settled_serve [OF settled_start])
  have 1: "length (filter is_StreamError (sent ?h)) \<le> 1"
    using s by (auto simp: settled_def)
  have 2: "ended ?h \<longleftrightarrow> at ?h = Finished"
    using s by (simp add: settled_def)
  have 3: "ended ?h \<longrightarrow> \<not> ping ?h
        \<and> (\<forall>more. sent (serve lib rid ?h more) = sent ?h \<and> ended (serve lib rid ?h more))"
    using s ended_serve_sent [of ?h lib rid] by (auto simp: settled_def)
  have 4: "at ?h = AwaitNext \<longrightarrow> filter is_StreamError (sent ?h) = []"
    using s by (auto simp: settled_def)
  have 5: "at ?h = AwaitNext \<longrightarrow>
        (\<forall>err. sent (step lib rid ?h (Throw err))
                   = sent ?h @ [StreamError \<lparr>error = message err, code = ''stream_error'', reqId = rid\<rparr>]
                \<and> ended (step lib rid ?h (Throw err)))
        \<and> ended (step lib rid ?h Return)
        \<and> sent (step lib rid ?h Return) = sent ?h
        \<and> (aborted ?h \<longrightarrow>
             (\<forall>e. ended (step lib rid ?h (Next e)) \<and> sent (step lib rid ?h (Next e)) = sent ?h))"
    by (simp add: finally_block_def send_def)
  show ?thesis
    using 1 2 3 4 5 by blast
qed

lemma exception_frame_once_then_end_example:
  "sent (serve sample_lib ''r1'' start [Next judge_event, GotSession (Inr None), Throw (Error ''quota''), Tick, Return])
     = [Retry,
        Data \<lparr>fr_author = ''judge'', fr_text = [], fr_calls = [], fr_responses = [],
              fr_escalate = False, fr_judge_output = None, fr_reqId = ''r1''\<rparr>,
        StreamError \<lparr>error = ''quota'', code = ''stream_error'', reqId = ''r1''\<rparr>]
   \<and> ended (serve sample_lib ''r1'' start [Next judge_event, GotSession (Inr None), Throw (Error ''quota'')])
   \<and> ended (serve sample_lib ''r1'' start [Next judge_event, GotSession (Inr None), Close, Next judge_event])"
  using exception_frame_once_then_end [of sample_lib "''r1''" "[Next judge_event, GotSession (Inr None)]"]
    exception_frame_once_then_end [of sample_lib "''r1''" "[Next judge_event, GotSession (Inr None), Throw (Error ''quota'')]"]
    exception_frame_once_then_end [of sample_lib "''r1''" "[Next judge_event, GotSession (Inr None), Close]"]
  by (simp add: start_def send_def finally_block_def event_frame_def
      peek_judge_output_def sample_lib_def judge_event_def actions_escalate_def)

text \<open>
  C6. The claim asks that an error Event, like an exception, is answered by exactly one
  final error frame and the close of the transport; the tasks file and the API
  document of the repository say the same of every error in the stream, and the
  \<open>catch\<close> branch does it for an exception. The handler does not do it for an event that
  carries an error: the event gets an ordinary data frame, the response stays open and
  the handler goes on waiting for the runner; when the runner is then exhausted, the
  response ends without any error frame.
\<close>

theorem error_event_gets_no_error_frame:
  "errorCode failed_event = Some ''UNKNOWN_ERROR''
   \<and> serve sample_lib ''r1'' start [Next failed_event, GotSession (Inr None)]
       = \<lparr>aborted = False, eventCount = 1, reason = R_completed, ping = True,
          sent = [Retry,
                  Data \<lparr>fr_author = ''researcher'', fr_text = [], fr_calls = [], fr_responses = [],
                        fr_escalate = False, fr_judge_output = None, fr_reqId = ''r1''\<rparr>],
          ended = False, at = AwaitNext\<rparr>
   \<and> filter is_StreamError
        (sent (serve sample_lib ''r1'' start [Next failed_event, GotSession (Inr None), Return])) = []"
  by (simp add: start_def send_def finally_block_def event_frame_def
      peek_judge_output_def sample_lib_def failed_event_def actions_escalate_def)

section \<open>Validation of the stream request\<close>

lemma safeParse_string:
  "safeParse num (ZString (Some lo) (Some hi)) v \<noteq> None \<longleftrightarrow> string_within lo hi v"
  by (cases v) (simp_all add: string_within_def)

lemma safeParse_optional_string:
  "safeParse num (ZOptional (ZString None None)) v \<noteq> None \<longleftrightarrow> v = JUndefined \<or> is_string v"
  by (cases v) simp_all

lemma safeParse_optional_number:
  "safeParse num (ZOptional ZCoerceNumber) v \<noteq> None \<longleftrightarrow> v = JUndefined \<or> num v \<noteq> None"
  by simp

lemma those_eq_None: "those xs = None \<longleftrightarrow> None \<in> set xs"
  by (induction xs) (auto split: option.splits)

lemma safeParse_RunStreamQuery:
  "safeParse num RunStreamQuery v \<noteq> None \<longleftrightarrow> accepts_by_lengths v \<and> optional_keys_ok num v"
proof (cases v)
  case (JObj kvs)
  have "safeParse num RunStreamQuery v \<noteq> None \<longleftrightarrow>
        safeParse num (ZString (Some 1) (Some 128)) (own_property kvs ''userId'') \<noteq> None
        \<and> safeParse num (ZString (Some 1) (Some 128)) (own_property kvs ''sessionId'') \<noteq> None
        \<and> safeParse num (ZString (Some 1) (Some 2000)) (own_property kvs ''q'') \<noteq> None
        \<and> safeParse num (ZOptional (ZString None None)) (own_property kvs ''model'') \<noteq> None
        \<and> safeParse num (ZOptional ZCoerceNumber) (own_property kvs ''maxIterations'') \<noteq> None"
    unfolding JObj RunStreamQuery_def id_schema_def z_string_def
    by (simp add: those_eq_None split: option.splits del: safeParse.simps(1,3,4))
  then show ?thesis
    unfolding safeParse_string safeParse_optional_string safeParse_optional_number
    by (simp add: accepts_by_lengths_def optional_keys_ok_def JObj)
qed (simp_all add: RunStreamQuery_def accepts_by_lengths_def)

text \<open>The bounds are inclusive, as the tests of the schema say.\<close>

lemma length_bounds_inclusive:
  "safeParse num RunStreamQuery
     (JObj [(''userId'', JStr (replicate 128 CHR ''a'')), (''sessionId'', JStr ''s''),
            (''q'', JStr (replicate 2000 CHR ''a''))]) \<noteq> None"
  "safeParse num RunStreamQuery
     (JObj [(''userId'', JStr (replicate 129 CHR ''a'')), (''sessionId'', JStr ''s''),
            (''q'', JStr ''x'')]) = None"
  "safeParse num RunStreamQuery
     (JObj [(''userId'', JStr ''u''), (''sessionId'', JStr ''s''),
            (''q'', JStr (replicate 2001 CHR ''a''))]) = None"
  "safeParse num RunStreamQuery
     (JObj [(''userId'', JStr ''u''), (''sessionId'', JStr ''s''), (''q'', JStr [])]) = None"
  "safeParse num RunStreamQuery (JObj [(''sessionId'', JStr ''s''), (''q'', JStr ''x'')]) = None"
  by (simp_all add: RunStreamQuery_def id_schema_def z_string_def own_property_def)

text \<open>
  C9 (as the code has it). The query is accepted if and only if \<open>userId\<close> and \<open>sessionId\<close>
  are strings of length 1 to 128, \<open>q\<close> is a string of length 1 to 2000, \<open>model\<close> is absent
  or a string, and \<open>maxIterations\<close> is absent or accepted by \<open>z.coerce.number()\<close>. A
  rejected query gets status 400 with the body \<open>{error, code: invalid_request, reqId}\<close>,
  no stream is started and the session store is unchanged; an accepted query never gets
  status 400.
\<close>

theorem invalid_query_gets_400:
  "(safeParse num RunStreamQuery v \<noteq> None \<longleftrightarrow> accepts_by_lengths v \<and> optional_keys_ok num v)
   \<and> (safeParse (coerce_number env) RunStreamQuery (query req) = None \<longrightarrow>
        run_stream env req store =
          (Replied 400 \<lparr>error = error_message env (query req), code = ''invalid_request'',
                        reqId = request_id req\<rparr>, store))
   \<and> (safeParse (coerce_number env) RunStreamQuery (query req) \<noteq> None \<longrightarrow>
        (\<forall>b. fst (run_stream env req store) \<noteq> Replied 400 b))"
proof (intro conjI impI)
  show "safeParse num RunStreamQuery v \<noteq> None \<longleftrightarrow> accepts_by_lengths v \<and> optional_keys_ok num v"
    by (rule safeParse_RunStreamQuery)
next
  assume "safeParse (coerce_number env) RunStreamQuery (query req) = None"
  then show "run_stream env req store =
          (Replied 400 \<lparr>error = error_message env (query req), code = ''invalid_request'',
                        reqId = request_id req\<rparr>, store)"
    by (simp add: run_stream_def sendError_def)
next
  assume "safeParse (coerce_number env) RunStreamQuery (query req) \<noteq> None"
  then show "\<forall>b. fst (run_stream env req store) \<noteq> Replied 400 b"
    by (auto simp: run_stream_def sendError_def Let_def split: option.splits sum.splits)
qed

theorem invalid_query_gets_400_witness:
  "run_stream sample_env
     \<lparr>query = JObj [(''userId'', JStr []), (''sessionId'', JStr ''s1''), (''q'', JStr ''hi'')],
      x_request_id = None, randomUUID = ''8a2f1c3e-0000''\<rparr> Map.empty
   = (Replied 400 \<lparr>error = ''Invalid input'', code = ''invalid_request'', reqId = ''8a2f1c3e''\<rparr>,
      Map.empty)
   \<and> fst (run_stream sample_env
     \<lparr>query = JObj [(''userId'', JStr ''u1''), (''sessionId'', JStr ''s1''), (''q'', JStr ''hi'')],
      x_request_id = Some ''r1'', randomUUID = ''8a2f1c3e-0000''\<rparr> Map.empty)
   = Streaming ''u1'' ''s1'' ''hi'' start"
  using invalid_query_gets_400 [of "coerce_number sample_env"
      "JObj [(''userId'', JStr []), (''sessionId'', JStr ''s1''), (''q'', JStr ''hi'')]" sample_env
      "\<lparr>query = JObj [(''userId'', JStr []), (''sessionId'', JStr ''s1''), (''q'', JStr ''hi'')],
        x_request_id = None, randomUUID = ''8a2f1c3e-0000''\<rparr>" Map.empty]
    invalid_query_gets_400 [of "coerce_number sample_env"
      "JObj [(''userId'', JStr ''u1''), (''sessionId'', JStr ''s1''), (''q'', JStr ''hi'')]" sample_env
      "\<lparr>query = JObj [(''userId'', JStr ''u1''), (''sessionId'', JStr ''s1''), (''q'', JStr ''hi'')],
        x_request_id = Some ''r1'', randomUUID = ''8a2f1c3e-0000''\<rparr>" Map.empty]
  by (simp add: run_stream_def sendError_def sample_env_def RunStreamQuery_def id_schema_def
      z_string_def own_property_def request_id_def data_string_def Let_def)

text \<open>
  Against C9 as stated: a query whose \<open>userId\<close>, \<open>sessionId\<close> and \<open>q\<close> are within the
  bounds, sent with two \<open>model\<close> parameters (an array), is rejected, whatever the number
  coercion does.
\<close>

theorem array_model_is_rejected:
  "accepts_by_lengths
     (JObj [(''userId'', JStr ''u1''), (''sessionId'', JStr ''s1''), (''q'', JStr ''hi''),
            (''model'', JArr [JStr ''a'', JStr ''b''])])
   \<and> (\<forall>num. safeParse num RunStreamQuery
         (JObj [(''userId'', JStr ''u1''), (''sessionId'', JStr ''s1''), (''q'', JStr ''hi''),
                (''model'', JArr [JStr ''a'', JStr ''b''])]) = None)"
  by (simp add: accepts_by_lengths_def string_within_def RunStreamQuery_def id_schema_def
      z_string_def own_property_def)


section \<open>The Loop stage and the runner's state application\<close>

lemma escalates_at_0: "escalates_at body s 0 = ends_with_escalate (fst (body s))"
  by (simp add: escalates_at_def)

lemma escalates_at_Suc: "escalates_at body s (Suc j) = escalates_at body (snd (body s)) j"
  by (simp add: escalates_at_def)

lemma loop_from_exhausts:
  "i + Suc m = n \<Longrightarrow> (\<forall>j < Suc m. \<not> escalates_at body s j) \<Longrightarrow>
   loop_from body n i s =
     \<lparr>lr_items = pass_items body (Suc m) s, lr_end = Exhausted, lr_passes = Suc m,
      lr_session = pass_session body (Suc m) s\<rparr>"
proof (induction m arbitrary: i s)
  case 0
  obtain ps s1 where b: "body s = (ps, s1)" by (cases "body s")
  have "\<not> ends_with_escalate ps"
    using 0(2) b by (simp add: escalates_at_0)
  then show ?case
    using 0(1) b by (simp add: loop_from.simps [of body n i s])
next
  case (Suc m)
  obtain ps s1 where b: "body s = (ps, s1)" by (cases "body s")
  have ne: "\<not> ends_with_escalate ps"
    using Suc.prems(2) b by (auto simp: escalates_at_0 dest: spec [of _ 0])
  have 1: "Suc i + Suc m = n" using Suc.prems(1) by simp
  have 2: "\<forall>j < Suc m. \<not> escalates_at body s1 j"
  proof (intro allI impI)
    fix j assume "j < Suc m"
    then have "\<not> escalates_at body s (Suc j)" using Suc.prems(2) by simp
    then show "\<not> escalates_at body s1 j" using b by (simp add: escalates_at_Suc)
  qed
  from Suc.IH [OF 1 2] show ?case
    using ne b Suc.prems(1) by (simp add: loop_from.simps [of body n i s])
qed

lemma loop_from_escalates:
  "i + k < n \<Longrightarrow> (\<forall>j < k. \<not> escalates_at body s j) \<Longrightarrow> escalates_at body s k \<Longrightarrow>
   loop_from body n i s =
     \<lparr>lr_items = pass_items body (Suc k) s, lr_end = Escalated, lr_passes = Suc k,
      lr_session = pass_session body (Suc k) s\<rparr>"
proof (induction k arbitrary: i s)
  case 0
  obtain ps s1 where b: "body s = (ps, s1)" by (cases "body s")
  show ?case
    using 0 b by (simp add: loop_from.simps [of body n i s] escalates_at_0)
next
  case (Suc k)
  obtain ps s1 where b: "body s = (ps, s1)" by (cases "body s")
  have ne: "\<not> ends_with_escalate ps"
    using Suc.prems(2) b by (auto simp: escalates_at_0 dest: spec [of _ 0])
  have 1: "Suc i + k < n" using Suc.prems(1) by simp
  have 2: "\<forall>j < k. \<not> escalates_at body s1 j"
  proof (intro allI impI)
    fix j assume "j < k"
    then have "\<not> escalates_at body s (Suc j)" using Suc.prems(2) by simp
    then show "\<not> escalates_at body s1 j" using b by (simp add: escalates_at_Suc)
  qed
  have 3: "escalates_at body s1 k"
    using Suc.prems(3) b by (simp add: escalates_at_Suc)
  from Suc.IH [OF 1 2 3] show ?case
    using ne b Suc.prems(1) by (simp add: loop_from.simps [of body n i s])
qed



lemma foldl_apply_effect_state:
  "state (foldl apply_effect s ps) k =
     (if writes k ps = [] then state s k else Some (last (writes k ps)))"
proof (induction ps rule: rev_induct)
  case Nil
  then show ?case by (simp add: writes_def List.map_filter_simps)
next
  case (snoc p ps)
  have w: "writes k (ps @ [p]) =
      writes k ps @ (if origin_key p = Some k
                     then (case produced_output p of None \<Rightarrow> [] | Some v \<Rightarrow> [v]) else [])"
    by (simp add: writes_def List.map_filter_def split: option.splits)
  show ?case
    using snoc by (auto simp: w apply_effect_def split: option.splits)
qed

lemma foldl_apply_effect_events:
  "events (foldl apply_effect s ps) = events s @ map produced_event ps"
  by (induction ps rule: rev_induct) (simp_all add: apply_effect_def)

lemma loop_from_session:
  assumes "\<And>s. snd (body s) = foldl apply_effect s (fst (body s))"
  shows "lr_session (loop_from body n i s) = foldl apply_effect s (lr_items (loop_from body n i s))"
  using assms
proof (induction body n i s rule: loop_from.induct)
  case (1 body n i s)
  obtain ps s1 where b: "body s = (ps, s1)" by (cases "body s")
  have s1: "s1 = foldl apply_effect s ps"
    using "1.prems" [of s] b by simp
  show ?case
  proof (cases "i < n \<and> \<not> ends_with_escalate ps \<and> Suc i \<noteq> n")
    case True
    then have "lr_session (loop_from body n (Suc i) s1) =
          foldl apply_effect s1 (lr_items (loop_from body n (Suc i) s1))"
      using "1.IH" [OF _ b [symmetric]] "1.prems" by simp
    then show ?thesis
      using True b s1 by (simp add: loop_from.simps [of body n i s] Let_def)
  next
    case False
    then show ?thesis
      using b s1 by (auto simp: loop_from.simps [of body n i s])
  qed
qed

lemma run_session:
  "snd (run_agent cap a s) = foldl apply_effect s (fst (run_agent cap a s))"
  "snd (run_children cap cs s) = foldl apply_effect s (fst (run_children cap cs s))"
proof (induction cap a s and cap cs s rule: run_agent_run_children.induct)
  case (4 cap nm cs n s)
  then show ?case
    using loop_from_session [of "run_children cap cs" n 0 s]
    by (simp add: loop_run_def Let_def)
next
  case (6 cap c cs s)
  then show ?case
    by (auto split: prod.splits)
qed (simp_all add: Let_def)


lemma pass_items_Suc_end:
  "pass_items body (Suc k) s = pass_items body k s @ fst (body (pass_session body k s))"
  by (induction k arbitrary: s) simp_all

lemma pass_session_Suc_end:
  "pass_session body (Suc k) s = snd (body (pass_session body k s))"
  by (induction k arbitrary: s) simp_all

text \<open>
  When the body ends with the escalation checker, a pass ends with an escalate event
  exactly when the judge output that the checker reads has the status \<open>"pass"\<close>: a
  Checker that never escalates is a body none of whose passes ends with an escalate
  event.
\<close>

lemma run_children_append:
  "run_children cap (xs @ ys) s =
     (fst (run_children cap xs s) @ fst (run_children cap ys (snd (run_children cap xs s))),
      snd (run_children cap ys (snd (run_children cap xs s))))"
  by (induction xs arbitrary: s) (simp_all split: prod.splits)

lemma checker_items_eq:
  "checker_items nm s =
     [\<lparr>origin = nm, origin_key = None,
       produced_event = (if status_is_pass (state s) then escalate_event nm else continue_event nm),
       produced_output = None\<rparr>]"
  by (simp add: checker_items_def runAsyncImpl_eq)

lemma body_ending_in_checker:
  "ends_with_escalate (fst (run_children cap (pre @ [EscalationChecker nm]) s))
     \<longleftrightarrow> status_is_pass (state (snd (run_children cap pre s)))"
  by (simp add: run_children_append checker_items_eq ends_with_escalate_def Let_def
      actions_escalate_def escalate_event_def continue_event_def createEvent_def
      createEventActions_def)

text \<open>
  C2. For a positive \<open>maxIterations = n\<close>, when none of the \<open>n\<close> passes ends with an
  escalate event, the Loop performs exactly \<open>n\<close> body passes, forwards the events of these
  passes and no other, and ends \<open>Exhausted\<close>; in a Sequential composition the stages
  after the Loop then run, from the session the Loop left, and their events follow.
\<close>

theorem loop_exhausts_after_n_passes:
  assumes "0 < n"
    and "\<forall>j < n. \<not> escalates_at (run_children cap cs) s j"
  shows "loop_run (run_children cap cs) n s =
           \<lparr>lr_items = pass_items (run_children cap cs) n s, lr_end = Exhausted, lr_passes = n,
            lr_session = pass_session (run_children cap cs) n s\<rparr>
       \<and> run_agent cap (LoopAgent ln cs n) s =
           (pass_items (run_children cap cs) n s, pass_session (run_children cap cs) n s)
       \<and> run_agent cap (SequentialAgent sn d (LoopAgent ln cs n # rest)) s =
           (pass_items (run_children cap cs) n s
              @ fst (run_children cap rest (pass_session (run_children cap cs) n s)),
            snd (run_children cap rest (pass_session (run_children cap cs) n s)))"
proof -
  obtain m where m: "n = Suc m" using assms(1) by (cases n) auto
  have "0 + Suc m = n" using m by simp
  from loop_from_exhausts [OF this, of "run_children cap cs" s]
  have r: "loop_run (run_children cap cs) n s =
           \<lparr>lr_items = pass_items (run_children cap cs) n s, lr_end = Exhausted, lr_passes = n,
            lr_session = pass_session (run_children cap cs) n s\<rparr>"
    using assms(2) m by (simp add: loop_run_def)
  then have a: "run_agent cap (LoopAgent ln cs n) s =
           (pass_items (run_children cap cs) n s, pass_session (run_children cap cs) n s)"
    by simp
  show ?thesis
    using r a by (simp split: prod.splits)
qed

lemma never_passes_body:
  "fst (run_children never_passes [researcher, judge, EscalationChecker ''checker''] s) =
     [\<lparr>origin = ''researcher'', origin_key = None, produced_event = researcher_event,
        produced_output = None\<rparr>,
      \<lparr>origin = ''judge'', origin_key = Some ''judge_output'', produced_event = judge_event,
        produced_output = Some (JObj [(''status'', JStr ''fail''), (''feedback'', JStr ''thin'')])\<rparr>,
      \<lparr>origin = ''checker'', origin_key = None, produced_event = continue_event ''checker'',
        produced_output = None\<rparr>]"
  by (simp add: researcher_def judge_def never_passes_def leaf_items_def checker_items_def
      apply_effect_def runAsyncImpl_eq status_is_pass_def Let_def)

theorem loop_exhausts_after_n_passes_witness:
  "lr_end (loop_run (run_children never_passes (subAgents researchLoop)) 3 fresh) = Exhausted
   \<and> lr_passes (loop_run (run_children never_passes (subAgents researchLoop)) 3 fresh) = 3
   \<and> map origin (fst (run_agent never_passes courseCreator fresh)) =
        [''researcher'', ''judge'', ''checker'', ''researcher'', ''judge'', ''checker'',
         ''researcher'', ''judge'', ''checker'']"
proof -
  let ?body = "run_children never_passes [researcher, judge, EscalationChecker ''checker'']"
  have h: "\<forall>j < 3. \<not> escalates_at ?body fresh j"
    unfolding escalates_at_def never_passes_body
    by (simp add: ends_with_escalate_def continue_event_def createEvent_def actions_escalate_def)
  have p: "(0::nat) < 3" by simp
  note t = loop_exhausts_after_n_passes [OF p h, of "''research_loop''"
        "''course_creator_pipeline''" "''Researches and builds a course.''" "[]"]
  have i: "map origin (pass_items ?body 3 s) =
        [''researcher'', ''judge'', ''checker'', ''researcher'', ''judge'', ''checker'',
         ''researcher'', ''judge'', ''checker'']" for s
    unfolding numeral_3_eq_3 pass_items.simps never_passes_body by simp
  have c: "fst (run_agent never_passes courseCreator fresh) = pass_items ?body 3 fresh"
    unfolding courseCreator_def researchLoop_def using t by simp
  show ?thesis
    using t i c by (simp add: researchLoop_def)
qed


text \<open>
  C3. When pass \<open>k\<close> (with \<open>k\<close> at most \<open>maxIterations\<close>) is the first to end with an
  escalate event, the Loop ends \<open>Escalated\<close> after exactly \<open>k\<close> passes: it forwards the
  events of these \<open>k\<close> passes, the last of them the escalate event, and nothing after.
\<close>

theorem loop_escalates_on_pass_k:
  assumes "0 < k" and "k \<le> n"
    and "\<forall>j. Suc j < k \<longrightarrow> \<not> escalates_at (run_children cap cs) s j"
    and "escalates_at (run_children cap cs) s (k - 1)"
  shows "loop_run (run_children cap cs) n s =
           \<lparr>lr_items = pass_items (run_children cap cs) k s, lr_end = Escalated, lr_passes = k,
            lr_session = pass_session (run_children cap cs) k s\<rparr>
       \<and> run_agent cap (LoopAgent ln cs n) s =
           (pass_items (run_children cap cs) k s, pass_session (run_children cap cs) k s)
       \<and> ends_with_escalate (pass_items (run_children cap cs) k s)"
proof -
  obtain m where m: "k = Suc m" using assms(1) by (cases k) auto
  have 1: "0 + m < n" using m assms(2) by simp
  have 2: "\<forall>j < m. \<not> escalates_at (run_children cap cs) s j"
    using assms(3) m by simp
  have 3: "escalates_at (run_children cap cs) s m"
    using assms(4) m by simp
  from loop_from_escalates [OF 1 2 3]
  have r: "loop_run (run_children cap cs) n s =
           \<lparr>lr_items = pass_items (run_children cap cs) k s, lr_end = Escalated, lr_passes = k,
            lr_session = pass_session (run_children cap cs) k s\<rparr>"
    using m by (simp add: loop_run_def)
  have e: "ends_with_escalate (pass_items (run_children cap cs) k s)"
    using 3 unfolding m pass_items_Suc_end
    by (simp add: escalates_at_def ends_with_escalate_def)
  show ?thesis
    using r e by simp
qed

lemma passes_third_body:
  "run_children passes_third [researcher, judge, EscalationChecker ''checker''] s =
     ([\<lparr>origin = ''researcher'', origin_key = None, produced_event = researcher_event,
         produced_output = None\<rparr>,
       \<lparr>origin = ''judge'', origin_key = Some ''judge_output'', produced_event = judge_event,
         produced_output =
           Some (JObj [(''status'', JStr (if length (events s) < 5 then ''fail'' else ''pass''))])\<rparr>,
       \<lparr>origin = ''checker'', origin_key = None,
         produced_event =
           (if length (events s) < 5 then continue_event ''checker'' else escalate_event ''checker''),
         produced_output = None\<rparr>],
      \<lparr>state = (state s)(''judge_output'' \<mapsto>
                  JObj [(''status'', JStr (if length (events s) < 5 then ''fail'' else ''pass''))]),
        events = events s @ [researcher_event, judge_event,
           (if length (events s) < 5 then continue_event ''checker'' else escalate_event ''checker'')]\<rparr>)"
  by (simp add: researcher_def judge_def passes_third_def leaf_items_def checker_items_def
      apply_effect_def runAsyncImpl_eq status_is_pass_def Let_def)

theorem loop_escalates_on_pass_k_witness:
  "lr_end (loop_run (run_children passes_third (subAgents researchLoop)) 3 fresh) = Escalated
   \<and> lr_passes (loop_run (run_children passes_third (subAgents researchLoop)) 3 fresh) = 3
   \<and> map (\<lambda>p. (origin p, actions_escalate (produced_event p)))
        (fst (run_agent passes_third researchLoop fresh)) =
        [(''researcher'', None), (''judge'', None), (''checker'', None),
         (''researcher'', None), (''judge'', None), (''checker'', None),
         (''researcher'', None), (''judge'', None), (''checker'', Some True)]"
proof -
  let ?body = "run_children passes_third [researcher, judge, EscalationChecker ''checker'']"
  have e0: "\<not> escalates_at ?body fresh 0"
    unfolding escalates_at_def pass_session.simps passes_third_body
    by (simp add: fresh_def ends_with_escalate_def continue_event_def createEvent_def
        actions_escalate_def)
  have e1: "\<not> escalates_at ?body fresh (Suc 0)"
    unfolding escalates_at_def pass_session.simps passes_third_body
    by (simp add: fresh_def ends_with_escalate_def continue_event_def createEvent_def
        actions_escalate_def)
  have e2: "escalates_at ?body fresh (3 - 1)"
    unfolding escalates_at_def numeral_3_eq_3 diff_Suc_1 pass_session.simps passes_third_body
    by (simp add: fresh_def ends_with_escalate_def escalate_event_def createEvent_def
        createEventActions_def actions_escalate_def)
  have h: "\<forall>j. Suc j < 3 \<longrightarrow> \<not> escalates_at ?body fresh j"
  proof (intro allI impI)
    fix j :: nat assume "Suc j < 3"
    then have "j = 0 \<or> j = Suc 0" by arith
    then show "\<not> escalates_at ?body fresh j" using e0 e1 by auto
  qed
  have p: "(0::nat) < 3" "(3::nat) \<le> 3" by simp_all
  note t = loop_escalates_on_pass_k [OF p h e2, of "''research_loop''"]
  have i: "map (\<lambda>p. (origin p, actions_escalate (produced_event p))) (pass_items ?body 3 fresh) =
        [(''researcher'', None), (''judge'', None), (''checker'', None),
         (''researcher'', None), (''judge'', None), (''checker'', None),
         (''researcher'', None), (''judge'', None), (''checker'', Some True)]"
    unfolding numeral_3_eq_3 pass_items.simps passes_third_body
    by (simp add: fresh_def researcher_event_def judge_event_def continue_event_def
        escalate_event_def createEvent_def createEventActions_def actions_escalate_def)
  have c: "fst (run_agent passes_third researchLoop fresh) = pass_items ?body 3 fresh"
    unfolding researchLoop_def using t by simp
  show ?thesis
    using t i c by (simp add: researchLoop_def)
qed


text \<open>
  C7. After a run, \<open>state[k]\<close> is the last value written under \<open>k\<close> during the run (the
  value from before the run when nothing was written): each merge overwrites the prior
  value. So for the stage that holds the output key \<open>k\<close>, once it has produced an output,
  \<open>state[k]\<close> is the structured output of its last event that carries one, however many
  events the stage produced. Every event of the run is appended to the event log.
\<close>

theorem output_key_last_write_wins:
  assumes "run_agent cap root s = (ps, s')"
  shows "state s' k = (if writes k ps = [] then state s k else Some (last (writes k ps)))
       \<and> events s' = events s @ map produced_event ps
       \<and> ((\<forall>p \<in> set ps. (origin_key p = Some k) = (origin p = nm)) \<longrightarrow>
            outputs_of nm ps \<noteq> [] \<longrightarrow> state s' k = Some (last (outputs_of nm ps)))"
proof -
  have s': "s' = foldl apply_effect s ps"
    using run_session(1) [of cap root s] assms by simp
  have w: "(\<forall>p \<in> set ps. (origin_key p = Some k) = (origin p = nm)) \<Longrightarrow>
        writes k ps = outputs_of nm ps"
    unfolding writes_def outputs_of_def List.map_filter_def
    by (induction ps) auto
  show ?thesis
    using w by (auto simp: s' foldl_apply_effect_state foldl_apply_effect_events)
qed

theorem output_key_last_write_wins_witness:
  "state (snd (run_agent drafts_then_final judge fresh)) ''judge_output''
     = Some (JObj [(''status'', JStr ''pass'')])
   \<and> length (fst (run_agent drafts_then_final judge fresh)) = 3"
proof -
  let ?ps = "[\<lparr>origin = ''judge'', origin_key = Some ''judge_output'', produced_event = judge_event,
         produced_output = Some (JObj [(''status'', JStr ''fail'')])\<rparr>,
       \<lparr>origin = ''judge'', origin_key = Some ''judge_output'', produced_event = judge_event,
         produced_output = None\<rparr>,
       \<lparr>origin = ''judge'', origin_key = Some ''judge_output'', produced_event = judge_event,
         produced_output = Some (JObj [(''status'', JStr ''pass'')])\<rparr>]"
  have r: "run_agent drafts_then_final judge fresh =
     (?ps, snd (run_agent drafts_then_final judge fresh))"
    by (simp add: judge_def drafts_then_final_def leaf_items_def Let_def)
  have h: "\<forall>p \<in> set ?ps. (origin_key p = Some ''judge_output'') = (origin p = ''judge'')"
    by simp
  have o: "outputs_of ''judge'' ?ps =
      [JObj [(''status'', JStr ''fail'')], JObj [(''status'', JStr ''pass'')]]"
    by (simp add: outputs_of_def List.map_filter_def)
  note t = output_key_last_write_wins [OF r, of "''judge_output''" "''judge''"]
  have "state (snd (run_agent drafts_then_final judge fresh)) ''judge_output''
      = Some (last (outputs_of ''judge'' ?ps))"
    using conjunct2 [OF conjunct2 [OF t]] h o by simp
  then have "state (snd (run_agent drafts_then_final judge fresh)) ''judge_output''
      = Some (JObj [(''status'', JStr ''pass'')])"
    unfolding o by simp
  moreover have "length (fst (run_agent drafts_then_final judge fresh)) = 3"
    by (simp add: judge_def drafts_then_final_def leaf_items_def Let_def)
  ultimately show ?thesis by simp
qed

section \<open>The checker after a pass that merged nothing\<close>

lemma status_is_pass_key:
  "st ''judge_output'' = st' ''judge_output'' \<Longrightarrow> status_is_pass st = status_is_pass st'"
  by (simp add: status_is_pass_def)

lemma pass_without_merge:
  assumes "writes ''judge_output'' (fst (run_children cap pre s)) = []"
  shows "state (snd (run_children cap pre s)) ''judge_output'' = state s ''judge_output''"
  using assms run_session(2) [of cap pre s]
  by (simp add: foldl_apply_effect_state)

text \<open>
  C10 (as the code has it). The read of \<open>state["judge_output"]\<close> is total: the checker
  never throws, and when the key is absent or bound to a value without a status field
  it yields the continue event, which does not escalate: the same result as for a judge
  output whose status is \<open>"fail"\<close>. A pass in which nothing is merged under
  \<open>judge_output\<close> leaves the checker reading the value the state held when the pass
  began: its event is the escalate event exactly when that earlier value has the status
  \<open>"pass"\<close>, and the continue event otherwise.
\<close>

theorem checker_read_is_total:
  "(\<exists>evs. runAsyncImpl nm ctx = Inr evs)
   \<and> ((case state (session ctx) ''judge_output'' of None \<Rightarrow> True | Some v \<Rightarrow> no_status_field v)
        \<longrightarrow> runAsyncImpl nm ctx = Inr [continue_event nm]
            \<and> actions_escalate (continue_event nm) = None
            \<and> runAsyncImpl nm ctx =
                runAsyncImpl nm
                  \<lparr>session = \<lparr>state = [''judge_output'' \<mapsto> JObj [(''status'', JStr ''fail'')]],
                              events = events (session ctx)\<rparr>\<rparr>)
   \<and> (state (session ctx) ''judge_output'' = before ''judge_output''
        \<longrightarrow> runAsyncImpl nm ctx =
              Inr [if status_is_pass before then escalate_event nm else continue_event nm])
   \<and> (writes ''judge_output'' (fst (run_children cap pre s)) = []
        \<longrightarrow> fst (run_children cap (pre @ [EscalationChecker nm]) s) =
              fst (run_children cap pre s)
              @ [\<lparr>origin = nm, origin_key = None,
                  produced_event =
                    (if status_is_pass (state s) then escalate_event nm else continue_event nm),
                  produced_output = None\<rparr>]
            \<and> (ends_with_escalate (fst (run_children cap (pre @ [EscalationChecker nm]) s))
                 \<longleftrightarrow> status_is_pass (state s)))"
proof (intro conjI impI)
  show "\<exists>evs. runAsyncImpl nm ctx = Inr evs"
    by (simp add: runAsyncImpl_eq)
next
  assume a: "case state (session ctx) ''judge_output'' of None \<Rightarrow> True | Some v \<Rightarrow> no_status_field v"
  have n: "\<not> status_is_pass (state (session ctx))"
    using a by (auto simp: status_is_pass_def split: option.splits jsval.splits)
  show "runAsyncImpl nm ctx = Inr [continue_event nm]"
    using n by (simp add: runAsyncImpl_eq)
  show "actions_escalate (continue_event nm) = None"
    by (simp add: actions_escalate_def continue_event_def createEvent_def)
  show "runAsyncImpl nm ctx =
        runAsyncImpl nm
          \<lparr>session = \<lparr>state = [''judge_output'' \<mapsto> JObj [(''status'', JStr ''fail'')]],
                      events = events (session ctx)\<rparr>\<rparr>"
    using n by (simp add: runAsyncImpl_eq status_is_pass_def)
next
  assume "state (session ctx) ''judge_output'' = before ''judge_output''"
  then show "runAsyncImpl nm ctx =
      Inr [if status_is_pass before then escalate_event nm else continue_event nm]"
    using status_is_pass_key [of "state (session ctx)" before] by (simp add: runAsyncImpl_eq)
next
  assume w: "writes ''judge_output'' (fst (run_children cap pre s)) = []"
  have k: "status_is_pass (state (snd (run_children cap pre s))) = status_is_pass (state s)"
    using pass_without_merge [OF w] by (simp add: status_is_pass_def)
  show "fst (run_children cap (pre @ [EscalationChecker nm]) s) =
              fst (run_children cap pre s)
              @ [\<lparr>origin = nm, origin_key = None,
                  produced_event =
                    (if status_is_pass (state s) then escalate_event nm else continue_event nm),
                  produced_output = None\<rparr>]"
    using k by (simp add: run_children_append checker_items_eq Let_def)
  show "ends_with_escalate (fst (run_children cap (pre @ [EscalationChecker nm]) s))
                 \<longleftrightarrow> status_is_pass (state s)"
    using k by (simp add: body_ending_in_checker)
qed

lemma silent_pass:
  "fst (run_children silent_judge [researcher, judge] s) =
     [\<lparr>origin = ''researcher'', origin_key = None, produced_event = researcher_event,
        produced_output = None\<rparr>,
      \<lparr>origin = ''judge'', origin_key = Some ''judge_output'', produced_event = judge_event,
        produced_output = None\<rparr>]"
  by (simp add: researcher_def judge_def silent_judge_def leaf_items_def Let_def)

lemma silent_pass_writes: "writes ''judge_output'' (fst (run_children silent_judge [researcher, judge] s)) = []"
  unfolding silent_pass by (simp add: writes_def List.map_filter_def)

theorem checker_read_is_total_witness:
  "runAsyncImpl ''checker'' \<lparr>session = \<lparr>state = Map.empty, events = []\<rparr>\<rparr>
     = Inr [continue_event ''checker'']
   \<and> runAsyncImpl ''checker''
        \<lparr>session = \<lparr>state = [''judge_output'' \<mapsto> JObj [(''feedback'', JStr ''thin'')]], events = []\<rparr>\<rparr>
     = Inr [continue_event ''checker'']
   \<and> runAsyncImpl ''checker'' \<lparr>session = \<lparr>state = [''judge_output'' \<mapsto> JNull], events = []\<rparr>\<rparr>
     = Inr [continue_event ''checker'']
   \<and> runAsyncImpl ''checker'' \<lparr>session = judge_said_fail\<rparr> = Inr [continue_event ''checker'']
   \<and> map (\<lambda>p. (origin p, actions_escalate (produced_event p)))
        (fst (run_children silent_judge (subAgents researchLoop) judge_said_fail))
      = [(''researcher'', None), (''judge'', None), (''checker'', None)]"
proof -
  have 1: "runAsyncImpl ''checker'' \<lparr>session = \<lparr>state = Map.empty, events = []\<rparr>\<rparr>
     = Inr [continue_event ''checker'']"
    using checker_read_is_total [of "''checker''" "\<lparr>session = \<lparr>state = Map.empty, events = []\<rparr>\<rparr>"]
    by simp
  have 2: "runAsyncImpl ''checker''
        \<lparr>session = \<lparr>state = [''judge_output'' \<mapsto> JObj [(''feedback'', JStr ''thin'')]], events = []\<rparr>\<rparr>
     = Inr [continue_event ''checker'']"
    using checker_read_is_total [of "''checker''"
      "\<lparr>session = \<lparr>state = [''judge_output'' \<mapsto> JObj [(''feedback'', JStr ''thin'')]], events = []\<rparr>\<rparr>"]
    by simp
  have 3: "runAsyncImpl ''checker'' \<lparr>session = \<lparr>state = [''judge_output'' \<mapsto> JNull], events = []\<rparr>\<rparr>
     = Inr [continue_event ''checker'']"
    using checker_read_is_total [of "''checker''" "\<lparr>session = \<lparr>state = [''judge_output'' \<mapsto> JNull], events = []\<rparr>\<rparr>"]
    by simp
  have 4: "runAsyncImpl ''checker'' \<lparr>session = judge_said_fail\<rparr> = Inr [continue_event ''checker'']"
    using checker_read_is_total [of "''checker''" "\<lparr>session = judge_said_fail\<rparr>" "state judge_said_fail"]
    by (simp add: judge_said_fail_def status_is_pass_def)
  note t = checker_read_is_total [where cap = silent_judge and pre = "[researcher, judge]"
      and s = judge_said_fail and nm = "''checker''"]
  have "fst (run_children silent_judge ([researcher, judge] @ [EscalationChecker ''checker'']) judge_said_fail) =
      fst (run_children silent_judge [researcher, judge] judge_said_fail)
      @ [\<lparr>origin = ''checker'', origin_key = None, produced_event = continue_event ''checker'',
          produced_output = None\<rparr>]"
    using conjunct2 [OF conjunct2 [OF conjunct2 [OF t]]] silent_pass_writes [of judge_said_fail]
    by (simp add: judge_said_fail_def status_is_pass_def)
  then have 5: "map (\<lambda>p. (origin p, actions_escalate (produced_event p)))
        (fst (run_children silent_judge (subAgents researchLoop) judge_said_fail))
      = [(''researcher'', None), (''judge'', None), (''checker'', None)]"
    unfolding silent_pass
    by (simp add: researchLoop_def researcher_event_def judge_event_def continue_event_def
        createEvent_def actions_escalate_def)
  show ?thesis using 1 2 3 4 5 by simp
qed

text \<open>
  Against C10 as stated: in a session that still holds a judge output with status
  \<open>"pass"\<close>, a pass in which the judge merges nothing ends with the escalate event of the
  checker.
\<close>

theorem stale_pass_escalates_without_merge:
  "runAsyncImpl ''checker'' \<lparr>session = stale_pass\<rparr> = Inr [escalate_event ''checker'']
   \<and> actions_escalate (escalate_event ''checker'') = Some True
   \<and> map (\<lambda>p. (origin p, produced_output p, actions_escalate (produced_event p)))
        (fst (run_children silent_judge (subAgents researchLoop) stale_pass))
      = [(''researcher'', None, None), (''judge'', None, None), (''checker'', None, Some True)]
   \<and> ends_with_escalate (fst (run_children silent_judge (subAgents researchLoop) stale_pass))"
  by (simp add: runAsyncImpl_eq status_is_pass_def stale_pass_def researchLoop_def researcher_def
      judge_def silent_judge_def leaf_items_def checker_items_eq apply_effect_def Let_def
      ends_with_escalate_def escalate_event_def createEvent_def createEventActions_def
      actions_escalate_def researcher_event_def judge_event_def)

end
